theory Spec2Isabelle
  imports Main
begin

section \<open>Mini cloud storage server: the protocol engine of server.c\<close>

text \<open>
  The development follows \<^verbatim>\<open>src/server.c\<close> (the POSIX server) function by function;
  the two functions of \<^verbatim>\<open>src/server_windows.c\<close> that differ in a way the properties
  below depend on (\<^verbatim>\<open>recv_line\<close> and \<^verbatim>\<open>handle_list\<close>) are given next to their
  POSIX siblings with the suffix \<open>_win\<close>.

  One connection is modelled sequentially. The operating system is a parameter:
  the bytes the peer sends and how the stream ends (\<open>conn\<close>), the entries of the
  storage directory (\<open>storage\<close>), and the outcomes of the calls that can fail for reasons
  outside the program (\<open>os_env\<close>).
\<close>

subsection \<open>Constants\<close>

definition MAX_LINE :: nat where
  "MAX_LINE = 4096"

definition MAX_PATH :: nat where
  "MAX_PATH = 1024"

text \<open>\<^verbatim>\<open>const size_t BUF = 1 << 16\<close> in \<^verbatim>\<open>handle_upload\<close>.\<close>

definition BUF :: nat where
  "BUF = 65536"

subsection \<open>C strings\<close>

definition NUL :: char where
  "NUL = CHR 0x00"

definition LF :: char where
  "LF = CHR 0x0A"

definition CR :: char where
  "CR = CHR 0x0D"

text \<open>A control line as it goes over the wire: the text and the terminating newline.\<close>

definition line_of :: "string \<Rightarrow> string" where
  "line_of s = s @ [LF]"

text \<open>The C string held by a buffer: the bytes before the first NUL.\<close>

definition cstr :: "string \<Rightarrow> string" where
  "cstr buf = takeWhile (\<lambda>c. c \<noteq> NUL) buf"

text \<open>\<^verbatim>\<open>strstr(hay, needle) != NULL\<close>, on C strings.\<close>

fun strstr :: "string \<Rightarrow> string \<Rightarrow> bool" where
  "strstr [] needle = (needle = [])"
| "strstr (c # cs) needle = (take (length needle) (c # cs) = needle \<or> strstr cs needle)"

text \<open>\<^verbatim>\<open>strchr(s, ch) != NULL\<close> for a character other than NUL.\<close>

definition strchr :: "string \<Rightarrow> char \<Rightarrow> bool" where
  "strchr s ch = (ch \<in> set s)"

text \<open>\<^verbatim>\<open>strncmp(s, t, n) == 0\<close>, on C strings.\<close>

definition strncmp_eq :: "string \<Rightarrow> string \<Rightarrow> nat \<Rightarrow> bool" where
  "strncmp_eq s t n = (take n s = take n t)"

text \<open>
  \<^verbatim>\<open>chomp\<close>: drops every trailing \<^verbatim>\<open>'\n'\<close> and \<^verbatim>\<open>'\r'\<close> of the C string in the buffer
  (it starts from \<^verbatim>\<open>strlen(s)\<close>).
\<close>

definition chomp :: "string \<Rightarrow> string" where
  "chomp s = rev (dropWhile (\<lambda>c. c = LF \<or> c = CR) (rev (cstr s)))"

text \<open>Decimal output of \<^verbatim>\<open>%d\<close> and \<^verbatim>\<open>%lld\<close> for the non-negative numbers the server prints.\<close>

definition digit_char :: "nat \<Rightarrow> char" where
  "digit_char d = ''0123456789'' ! d"

function dec :: "nat \<Rightarrow> string" where
  "dec n = (if n < 10 then [digit_char n] else dec (n div 10) @ [digit_char (n mod 10)])"
  by pat_completeness auto
termination
  by (relation "measure (\<lambda>n. n)") auto

declare dec.simps [simp del]

subsection \<open>Path validator\<close>

text \<open>
  \<^verbatim>\<open>path_join(out, cap, dir, name)\<close>: the deny-list, then
  \<^verbatim>\<open>r = snprintf(out, cap, "%s/%s", dir, name)\<close> and \<^verbatim>\<open>r > 0 && r < cap\<close>.
  \<open>None\<close> is the return value \<^verbatim>\<open>false\<close>, \<open>Some p\<close> is \<^verbatim>\<open>true\<close> with \<open>p\<close> in \<^verbatim>\<open>out\<close>.
\<close>

definition path_join :: "nat \<Rightarrow> string \<Rightarrow> string \<Rightarrow> string option" where
  "path_join cap dir name =
     (if strstr name ''..'' \<or> strchr name (CHR ''/'') \<or> strchr name (CHR 0x5C) then None
      else let r = length (dir @ ''/'' @ name)
           in if 0 < r \<and> r < cap then Some (dir @ ''/'' @ name) else None)"

subsection \<open>The connection\<close>

text \<open>
  The peer sends the bytes \<open>pending\<close> and then the stream ends: either the peer has closed
  its sending side (\<^verbatim>\<open>recv\<close> returns 0) or the transport has failed (\<^verbatim>\<open>recv\<close> returns
  -1 with an \<^verbatim>\<open>errno\<close> other than \<^verbatim>\<open>EINTR\<close>). An interrupted \<^verbatim>\<open>recv\<close> is retried
  by every caller and is therefore not visible here.

  In the other direction \<^verbatim>\<open>send_all\<close> calls \<^verbatim>\<open>send(fd, ..., 0)\<close>, without
  \<^verbatim>\<open>MSG_NOSIGNAL\<close>, and \<^verbatim>\<open>main\<close> installs a handler for \<^verbatim>\<open>SIGINT\<close> only: a send to
  a peer that has closed altogether can raise \<^verbatim>\<open>SIGPIPE\<close>, whose default action ends
  the server process. \<open>send_fates\<close> are the outcomes of the coming send calls, in order:
  the bytes are delivered, the call fails with -1, or the process is ended. Beyond the
  end of the list every send is delivered (the peer goes on reading). \<open>sent\<close> collects
  what was delivered, one element per \<^verbatim>\<open>send_line\<close> call or payload; \<open>alive\<close> is
  \<open>False\<close> once the process has been ended, and nothing is sent after that. A send that
  delivers only a part of its bytes is not represented.
\<close>

datatype stream_end = PeerClosed | RecvError

datatype send_fate = Delivered | SendError | Sigpipe

record conn =
  pending :: string
  at_end :: stream_end
  sent :: "string list"
  send_fates :: "send_fate list"
  alive :: bool

text \<open>\<^verbatim>\<open>send_all(fd, buf, len)\<close>: the return value and the connection.\<close>

definition send_all :: "conn \<Rightarrow> string \<Rightarrow> int \<times> conn" where
  "send_all c bytes =
     (if \<not> alive c then (-1, c)
      else (case send_fates c of
              [] \<Rightarrow> (int (length bytes), c\<lparr>sent := sent c @ [bytes]\<rparr>)
            | Delivered # fates \<Rightarrow> (int (length bytes), c\<lparr>sent := sent c @ [bytes], send_fates := fates\<rparr>)
            | SendError # fates \<Rightarrow> (-1, c\<lparr>send_fates := fates\<rparr>)
            | Sigpipe # fates \<Rightarrow> (-1, c\<lparr>send_fates := fates, alive := False\<rparr>)))"

text \<open>
  \<^verbatim>\<open>send_line\<close>: \<^verbatim>\<open>vsnprintf\<close> into \<^verbatim>\<open>buf[MAX_LINE]\<close>, then \<^verbatim>\<open>send_all\<close>. No caller
  looks at its result.
\<close>

definition send_line :: "conn \<Rightarrow> string \<Rightarrow> conn" where
  "send_line c msg = snd (send_all c (take (MAX_LINE - 1) msg))"

text \<open>
  Raw payload bytes of a download (\<^verbatim>\<open>sendfile\<close>, which meets the same fates as
  \<^verbatim>\<open>send\<close>); nothing is sent for an empty file. The result is whether the call failed,
  and the connection.
\<close>

definition send_raw :: "conn \<Rightarrow> string \<Rightarrow> bool \<times> conn" where
  "send_raw c bytes = (if bytes = [] then (False, c) else (fst (send_all c bytes) < 0, snd (send_all c bytes)))"

text \<open>
  \<^verbatim>\<open>recv_all(fd, buf, len)\<close>: loops until \<open>len\<close> bytes have arrived; when the peer closes
  first it returns the count received so far, on an error it returns -1.
  The result is the return value, the bytes placed in \<^verbatim>\<open>buf\<close>, and the connection.
\<close>

definition recv_all :: "conn \<Rightarrow> nat \<Rightarrow> int \<times> string \<times> conn" where
  "recv_all c len =
     (if len \<le> length (pending c)
      then (int len, take len (pending c), c\<lparr>pending := drop len (pending c)\<rparr>)
      else (case at_end c of
              PeerClosed \<Rightarrow> (int (length (pending c)), pending c, c\<lparr>pending := []\<rparr>)
            | RecvError \<Rightarrow> (-1, pending c, c\<lparr>pending := []\<rparr>)))"

text \<open>
  \<^verbatim>\<open>recv_line(fd, out, cap)\<close> of server.c. The loop runs while \<^verbatim>\<open>i + 1 < cap\<close>; the
  arguments are the stream end, the bytes stored so far (\<^verbatim>\<open>out[0..i)\<close>) and the bytes
  still to come. The result is the return value, the buffer and the unread bytes.
\<close>

fun recv_line_loop :: "nat \<Rightarrow> stream_end \<Rightarrow> string \<Rightarrow> string \<Rightarrow> int \<times> string \<times> string" where
  "recv_line_loop cap e out ps =
     (if length out + 1 < cap then
        (case ps of
           [] \<Rightarrow> (case e of
                   RecvError \<Rightarrow> (-1, out, [])
                 | PeerClosed \<Rightarrow> if length out = 0 then (0, out, []) else (int (length out), out, []))
         | ch # rest \<Rightarrow>
             if ch = LF then (int (length out + 1), out @ [ch], rest)
             else recv_line_loop cap e (out @ [ch]) rest)
      else (int (length out), out, ps))"

declare recv_line_loop.simps [simp del]

definition recv_line :: "nat \<Rightarrow> conn \<Rightarrow> int \<times> string \<times> conn" where
  "recv_line cap c =
     (case recv_line_loop cap (at_end c) [] (pending c) of
        (n, out, rest) \<Rightarrow> (n, out, c\<lparr>pending := rest\<rparr>))"

text \<open>
  \<^verbatim>\<open>recv_line\<close> of server_windows.c: \<^verbatim>\<open>received == SOCKET_ERROR || received == 0\<close>
  returns \<^verbatim>\<open>SOCKET_ERROR\<close> (-1) whatever has been read so far.
\<close>

fun recv_line_loop_win :: "nat \<Rightarrow> string \<Rightarrow> string \<Rightarrow> int \<times> string \<times> string" where
  "recv_line_loop_win maxlen out ps =
     (if int (length out) < int maxlen - 1 then
        (case ps of
           [] \<Rightarrow> (-1, out, [])
         | ch # rest \<Rightarrow>
             if ch = LF then (int (length out + 1), out @ [ch], rest)
             else recv_line_loop_win maxlen (out @ [ch]) rest)
      else (int (length out), out, ps))"

declare recv_line_loop_win.simps [simp del]

definition recv_line_win :: "nat \<Rightarrow> conn \<Rightarrow> int \<times> string \<times> conn" where
  "recv_line_win maxlen c =
     (case recv_line_loop_win maxlen [] (pending c) of
        (n, out, rest) \<Rightarrow> (n, out, c\<lparr>pending := rest\<rparr>))"

subsection \<open>The storage directory and the system calls\<close>

text \<open>
  The storage root is a flat directory: its entries in enumeration order, each a regular
  file with its bytes or a subdirectory. \<^verbatim>\<open>readdir\<close> also yields \<^verbatim>\<open>.\<close> and \<^verbatim>\<open>..\<close>,
  which are not stored in the list.
\<close>

datatype node = Reg string | Dir

type_synonym storage = "(string \<times> node) list"

text \<open>
  Outcomes the program cannot influence: whether \<^verbatim>\<open>opendir\<close> on the root fails
  (\<^verbatim>\<open>FindFirstFile\<close> in the Windows server), whether opening a file for writing is
  refused for a reason other than the target being a directory (permissions, quota),
  whether \<^verbatim>\<open>fcntl(F_SETLKW)\<close> fails, whether \<^verbatim>\<open>malloc\<close> returns NULL, and how many
  bytes \<^verbatim>\<open>write\<close> can still store (\<open>None\<close>: no limit).
\<close>

record os_env =
  opendir_fails :: bool
  open_fails :: bool
  lock_fails :: bool
  malloc_fails :: bool
  write_room :: "nat option"

text \<open>
  The entry a path names: the path has to be the root, a slash and one component.
  The components \<^verbatim>\<open>.\<close> and \<^verbatim>\<open>..\<close> and the empty component name directories.
\<close>

definition entry_name :: "string \<Rightarrow> string \<Rightarrow> string option" where
  "entry_name dir path =
     (if take (length dir + 1) path = dir @ ''/'' \<and> CHR ''/'' \<notin> set (drop (length dir + 1) path)
      then Some (drop (length dir + 1) path) else None)"

definition fs_lookup :: "storage \<Rightarrow> string \<Rightarrow> node option" where
  "fs_lookup st name = (if name = [] \<or> name = ''.'' \<or> name = ''..'' then Some Dir else map_of st name)"

fun fs_put :: "storage \<Rightarrow> string \<Rightarrow> node \<Rightarrow> storage" where
  "fs_put [] name nd = [(name, nd)]"
| "fs_put ((k, v) # rest) name nd = (if k = name then (k, nd) # rest else (k, v) # fs_put rest name nd)"

definition fs_remove :: "storage \<Rightarrow> string \<Rightarrow> storage" where
  "fs_remove st name = filter (\<lambda>e. fst e \<noteq> name) st"

text \<open>\<^verbatim>\<open>stat(path, &st)\<close>: the node, or \<open>None\<close> when the call fails.\<close>

definition sys_stat :: "string \<Rightarrow> storage \<Rightarrow> string \<Rightarrow> node option" where
  "sys_stat dir st path = (case entry_name dir path of None \<Rightarrow> None | Some name \<Rightarrow> fs_lookup st name)"

text \<open>
  \<^verbatim>\<open>open(path, O_WRONLY | O_CREAT | O_TRUNC, 0644)\<close>: fails when the environment refuses
  it and on a directory; otherwise the file exists afterwards and is empty. The result
  is the entry the descriptor refers to and the storage after the call.
\<close>

definition sys_open_trunc :: "os_env \<Rightarrow> string \<Rightarrow> storage \<Rightarrow> string \<Rightarrow> (string \<times> storage) option" where
  "sys_open_trunc env dir st path =
     (if open_fails env then None
      else (case entry_name dir path of
        None \<Rightarrow> None
      | Some name \<Rightarrow>
          (case fs_lookup st name of
             Some Dir \<Rightarrow> None
           | _ \<Rightarrow> Some (name, fs_put st name (Reg [])))))"

text \<open>\<^verbatim>\<open>open(path, O_RDONLY)\<close>: succeeds on every existing entry, directories included.\<close>

definition sys_open_rdonly :: "string \<Rightarrow> storage \<Rightarrow> string \<Rightarrow> node option" where
  "sys_open_rdonly dir st path = sys_stat dir st path"

text \<open>\<^verbatim>\<open>open(path, O_RDWR)\<close>: succeeds on an existing regular file only.\<close>

definition sys_open_rdwr :: "string \<Rightarrow> storage \<Rightarrow> string \<Rightarrow> string option" where
  "sys_open_rdwr dir st path =
     (case entry_name dir path of
        None \<Rightarrow> None
      | Some name \<Rightarrow> (case fs_lookup st name of Some (Reg bytes) \<Rightarrow> Some name | _ \<Rightarrow> None))"

text \<open>\<^verbatim>\<open>unlink(path)\<close>: removes a regular file; fails on a missing entry and on a directory.\<close>

definition sys_unlink :: "string \<Rightarrow> storage \<Rightarrow> string \<Rightarrow> storage option" where
  "sys_unlink dir st path =
     (case entry_name dir path of
        None \<Rightarrow> None
      | Some name \<Rightarrow> (case fs_lookup st name of Some (Reg bytes) \<Rightarrow> Some (fs_remove st name) | _ \<Rightarrow> None))"

text \<open>
  \<^verbatim>\<open>rename(oldp, newp)\<close> for a regular file \<open>oldp\<close>: fails when \<open>oldp\<close> is missing or
  \<open>newp\<close> is a directory, does nothing when both name the same entry, and otherwise
  replaces \<open>newp\<close>.
\<close>

definition sys_rename :: "string \<Rightarrow> storage \<Rightarrow> string \<Rightarrow> string \<Rightarrow> storage option" where
  "sys_rename dir st oldp newp =
     (case (entry_name dir oldp, entry_name dir newp) of
        (Some old, Some new) \<Rightarrow>
          (case fs_lookup st old of
             Some (Reg bytes) \<Rightarrow>
               (if fs_lookup st new = Some Dir then None
                else if old = new then Some st
                else Some (fs_put (fs_remove st old) new (Reg bytes)))
           | _ \<Rightarrow> None)
      | _ \<Rightarrow> None)"

text \<open>
  \<^verbatim>\<open>write(fd, buf, n)\<close> with \<open>room\<close> bytes left on the device: the return value, the
  bytes that reached the file, and the room left.
\<close>

definition sys_write :: "nat option \<Rightarrow> string \<Rightarrow> int \<times> string \<times> nat option" where
  "sys_write room buf =
     (case room of
        None \<Rightarrow> (int (length buf), buf, None)
      | Some r \<Rightarrow>
          if length buf \<le> r then (int (length buf), buf, Some (r - length buf))
          else if r = 0 then (-1, [], Some 0)
          else (int r, take r buf, Some 0))"

subsection \<open>Command handlers\<close>

text \<open>
  Every handler returns its C return value (0 or -1), the storage and the connection.
\<close>

text \<open>
  \<^verbatim>\<open>handle_list\<close> of server.c. The first \<^verbatim>\<open>readdir\<close> pass counts every entry other
  than \<^verbatim>\<open>.\<close> and \<^verbatim>\<open>..\<close>; the second pass sends a \<^verbatim>\<open>FILE\<close> line for an entry when
  \<^verbatim>\<open>path_join\<close> succeeds, \<^verbatim>\<open>stat\<close> succeeds and \<^verbatim>\<open>S_ISREG\<close> holds.
\<close>

definition readdir :: "storage \<Rightarrow> string list" where
  "readdir st = ''.'' # ''..'' # map fst st"

definition list_count :: "storage \<Rightarrow> nat" where
  "list_count st = length (filter (\<lambda>d. d \<noteq> ''.'' \<and> d \<noteq> ''..'') (readdir st))"

fun list_entries :: "string \<Rightarrow> storage \<Rightarrow> string list \<Rightarrow> conn \<Rightarrow> conn" where
  "list_entries dir st [] c = c"
| "list_entries dir st (d # ds) c =
     (if d = ''.'' \<or> d = ''..'' then list_entries dir st ds c
      else (case path_join MAX_PATH dir d of
              None \<Rightarrow> list_entries dir st ds c
            | Some path \<Rightarrow>
                (case sys_stat dir st path of
                   Some (Reg bytes) \<Rightarrow>
                     list_entries dir st ds
                       (send_line c (line_of (''FILE '' @ d @ '' '' @ dec (length bytes))))
                 | _ \<Rightarrow> list_entries dir st ds c)))"

definition handle_list :: "os_env \<Rightarrow> string \<Rightarrow> storage \<Rightarrow> conn \<Rightarrow> int \<times> storage \<times> conn" where
  "handle_list env dir st c =
     (if opendir_fails env then (-1, st, send_line c (line_of ''ERR cannot open storage''))
      else let c1 = send_line c (line_of (''OK '' @ dec (list_count st)));
               c2 = list_entries dir st (readdir st) c1
           in (0, st, send_line c2 (line_of ''END'')))"

text \<open>
  \<^verbatim>\<open>handle_list\<close> of server_windows.c: both \<^verbatim>\<open>FindFirstFile\<close> passes skip \<^verbatim>\<open>.\<close>,
  \<^verbatim>\<open>..\<close> and every entry with \<^verbatim>\<open>FILE_ATTRIBUTE_DIRECTORY\<close>.
\<close>

definition find_files_win :: "storage \<Rightarrow> (string \<times> node) list" where
  "find_files_win st = (''.'', Dir) # (''..'', Dir) # st"

definition listed_win :: "string \<times> node \<Rightarrow> bool" where
  "listed_win e = (fst e \<noteq> ''.'' \<and> fst e \<noteq> ''..'' \<and> snd e \<noteq> Dir)"

definition file_line_win :: "string \<times> node \<Rightarrow> string" where
  "file_line_win e =
     line_of (''FILE '' @ fst e @ '' '' @ dec (case snd e of Reg bytes \<Rightarrow> length bytes | Dir \<Rightarrow> 0))"

definition handle_list_win :: "os_env \<Rightarrow> string \<Rightarrow> storage \<Rightarrow> conn \<Rightarrow> int \<times> storage \<times> conn" where
  "handle_list_win env dir st c =
     (if opendir_fails env then (-1, st, send_line c (line_of ''ERR cannot open storage''))
      else let c1 = send_line c (line_of (''OK '' @ dec (length (filter listed_win (find_files_win st)))));
               c2 = foldl (\<lambda>k e. send_line k (file_line_win e)) c1 (filter listed_win (find_files_win st))
           in (0, st, send_line c2 (line_of ''END'')))"

text \<open>
  The receive loop of \<^verbatim>\<open>handle_upload\<close>: \<open>room\<close> is what the device can still take,
  \<open>written\<close> the bytes in the file so far, \<open>remaining\<close> the C variable of that name.
\<close>

datatype upload_end = Saved | RecvFailed | WriteFailed

function upload_loop :: "nat option \<Rightarrow> string \<Rightarrow> conn \<Rightarrow> int \<Rightarrow> upload_end \<times> string \<times> conn" where
  "upload_loop room written c remaining =
     (if remaining > 0 then
        (case recv_all c (if remaining > int BUF then BUF else nat remaining) of
           (n, buf, c1) \<Rightarrow>
             if n \<le> 0 then (RecvFailed, written, c1)
             else (case sys_write room (take (nat n) buf) of
                     (w, stored, room1) \<Rightarrow>
                       if w \<noteq> n then (WriteFailed, written @ stored, c1)
                       else upload_loop room1 (written @ stored) c1 (remaining - n)))
      else (Saved, written, c))"
  by pat_completeness auto
termination
  by (relation "measure (\<lambda>(room, written, c, remaining). nat remaining)") auto

declare upload_loop.simps [simp del]

text \<open>
  \<^verbatim>\<open>handle_upload(cfd, storage_dir, filename, size)\<close>; \<open>sz\<close> is the C parameter
  \<^verbatim>\<open>size\<close>. When the send of \<^verbatim>\<open>OK\<close> ends the process, nothing of what follows it in
  the source happens; every other send of the handler is its last action.
\<close>

definition handle_upload ::
  "os_env \<Rightarrow> string \<Rightarrow> storage \<Rightarrow> conn \<Rightarrow> string \<Rightarrow> int \<Rightarrow> int \<times> storage \<times> conn" where
  "handle_upload env dir st c filename sz =
     (if sz < 0 then (-1, st, send_line c (line_of ''ERR invalid size''))
      else (case path_join MAX_PATH dir filename of
        None \<Rightarrow> (-1, st, send_line c (line_of ''ERR bad filename''))
      | Some path \<Rightarrow>
          (case sys_open_trunc env dir st path of
             None \<Rightarrow> (-1, st, send_line c (line_of ''ERR cannot open file for write''))
           | Some (fd, st1) \<Rightarrow>
               if lock_fails env then (-1, st1, send_line c (line_of ''ERR cannot lock file''))
               else if \<not> alive (send_line c (line_of ''OK'')) then (-1, st1, send_line c (line_of ''OK''))
               else if malloc_fails env
               then (-1, st1, send_line (send_line c (line_of ''OK'')) (line_of ''ERR server oom''))
               else (case upload_loop (write_room env) [] (send_line c (line_of ''OK'')) sz of
                       (Saved, written, c2) \<Rightarrow>
                         (0, fs_put st1 fd (Reg written), send_line c2 (line_of ''OK SAVED''))
                     | (RecvFailed, written, c2) \<Rightarrow>
                         (-1, fs_put st1 fd (Reg written), send_line c2 (line_of ''ERR recv data failed''))
                     | (WriteFailed, written, c2) \<Rightarrow>
                         (-1, fs_put st1 fd (Reg written), send_line c2 (line_of ''ERR write failed''))))))"

text \<open>
  \<^verbatim>\<open>handle_download\<close>. \<^verbatim>\<open>fstat\<close> on the open descriptor does not fail here, so the
  reply \<^verbatim>\<open>ERR stat failed\<close> has no branch.
\<close>

definition handle_download ::
  "os_env \<Rightarrow> string \<Rightarrow> storage \<Rightarrow> conn \<Rightarrow> string \<Rightarrow> int \<times> storage \<times> conn" where
  "handle_download env dir st c filename =
     (case path_join MAX_PATH dir filename of
        None \<Rightarrow> (-1, st, send_line c (line_of ''ERR bad filename''))
      | Some path \<Rightarrow>
          (case sys_open_rdonly dir st path of
             None \<Rightarrow> (-1, st, send_line c (line_of ''ERR not found''))
           | Some nd \<Rightarrow>
               if lock_fails env then (-1, st, send_line c (line_of ''ERR cannot lock file''))
               else (case nd of
                       Dir \<Rightarrow> (-1, st, send_line c (line_of ''ERR not a file''))
                     | Reg bytes \<Rightarrow>
                         (case send_raw (send_line c (line_of (''OK '' @ dec (length bytes)))) bytes of
                            (failed, c1) \<Rightarrow> (if failed then -1 else 0, st, c1)))))"

text \<open>\<^verbatim>\<open>handle_rename\<close>: only the old name is opened and locked.\<close>

definition handle_rename ::
  "os_env \<Rightarrow> string \<Rightarrow> storage \<Rightarrow> conn \<Rightarrow> string \<Rightarrow> string \<Rightarrow> int \<times> storage \<times> conn" where
  "handle_rename env dir st c oldn newn =
     (case path_join MAX_PATH dir oldn of
        None \<Rightarrow> (-1, st, send_line c (line_of ''ERR bad filename''))
      | Some oldp \<Rightarrow>
          (case path_join MAX_PATH dir newn of
             None \<Rightarrow> (-1, st, send_line c (line_of ''ERR bad filename''))
           | Some newp \<Rightarrow>
               (case sys_open_rdwr dir st oldp of
                  None \<Rightarrow> (-1, st, send_line c (line_of ''ERR not found''))
                | Some fd \<Rightarrow>
                    if lock_fails env then (-1, st, send_line c (line_of ''ERR cannot lock''))
                    else (case sys_rename dir st oldp newp of
                            None \<Rightarrow> (-1, st, send_line c (line_of ''ERR rename failed''))
                          | Some st1 \<Rightarrow> (0, st1, send_line c (line_of ''OK RENAMED''))))))"

text \<open>
  \<^verbatim>\<open>handle_delete\<close>: the open and the lock are best effort, their results do not
  change what follows; \<^verbatim>\<open>unlink\<close> decides the reply.
\<close>

definition handle_delete ::
  "os_env \<Rightarrow> string \<Rightarrow> storage \<Rightarrow> conn \<Rightarrow> string \<Rightarrow> int \<times> storage \<times> conn" where
  "handle_delete env dir st c filename =
     (case path_join MAX_PATH dir filename of
        None \<Rightarrow> (-1, st, send_line c (line_of ''ERR bad filename''))
      | Some path \<Rightarrow>
          (case sys_unlink dir st path of
             None \<Rightarrow> (-1, st, send_line c (line_of ''ERR delete failed''))
           | Some st1 \<Rightarrow> (0, st1, send_line c (line_of ''OK DELETED''))))"

subsection \<open>Formatted scanning of a command line\<close>

text \<open>
  \<^verbatim>\<open>client_thread\<close> recognises a command with \<^verbatim>\<open>sscanf\<close>. The five format strings
  it uses consist of ordinary characters, white space, \<^verbatim>\<open>%1023s\<close> and \<^verbatim>\<open>%lld\<close>;
  \<open>sscanf\<close> below interprets such a format as the C library does: an ordinary
  character has to match the next input character, white space in the format skips any
  white space of the input, a conversion skips white space first. The result is the
  number of assigned items, or \<^verbatim>\<open>EOF\<close> (-1) when the input ends before the first
  conversion, together with the assigned items.
\<close>

datatype directive = Lit char | Blank | ConvS nat | ConvLLD

datatype scanned = ArgS string | ArgLL int

definition isspace :: "char \<Rightarrow> bool" where
  "isspace ch = (ch \<in> {CHR '' '', CHR 0x09, CHR 0x0A, CHR 0x0B, CHR 0x0C, CHR 0x0D})"

definition isdigit :: "char \<Rightarrow> bool" where
  "isdigit ch = (ch \<in> set ''0123456789'')"

definition dec_value :: "string \<Rightarrow> nat" where
  "dec_value ds = foldl (\<lambda>a d. 10 * a + (of_char d - 48)) 0 ds"

definition LLONG_MAX :: int where
  "LLONG_MAX = 9223372036854775807"

text \<open>
  \<^verbatim>\<open>%lld\<close>: an optional sign and at least one decimal digit; a value outside
  \<^verbatim>\<open>long long\<close> is stored as the nearest bound, as \<^verbatim>\<open>strtoll\<close> does.
\<close>

definition scan_ll :: "string \<Rightarrow> (int \<times> string) option" where
  "scan_ll inp =
     (let neg = (inp \<noteq> [] \<and> hd inp = CHR ''-'');
          body = (if inp \<noteq> [] \<and> (hd inp = CHR ''-'' \<or> hd inp = CHR ''+'') then tl inp else inp);
          ds = takeWhile isdigit body;
          v = (if neg then - int (dec_value ds) else int (dec_value ds))
      in if ds = [] then None
         else Some (max (- LLONG_MAX - 1) (min LLONG_MAX v), drop (length ds) body))"

definition input_failure :: "scanned list \<Rightarrow> int \<times> scanned list" where
  "input_failure got = (if got = [] then (-1, got) else (int (length got), got))"

fun sscanf_run :: "directive list \<Rightarrow> string \<Rightarrow> scanned list \<Rightarrow> int \<times> scanned list" where
  "sscanf_run [] inp got = (int (length got), got)"
| "sscanf_run (Lit ch # ds) inp got =
     (case inp of
        [] \<Rightarrow> input_failure got
      | x # xs \<Rightarrow> if x = ch then sscanf_run ds xs got else (int (length got), got))"
| "sscanf_run (Blank # ds) inp got = sscanf_run ds (dropWhile isspace inp) got"
| "sscanf_run (ConvS w # ds) inp got =
     (if dropWhile isspace inp = [] then input_failure got
      else sscanf_run ds
             (drop (length (take w (takeWhile (\<lambda>ch. \<not> isspace ch) (dropWhile isspace inp))))
                (dropWhile isspace inp))
             (got @ [ArgS (take w (takeWhile (\<lambda>ch. \<not> isspace ch) (dropWhile isspace inp)))]))"
| "sscanf_run (ConvLLD # ds) inp got =
     (if dropWhile isspace inp = [] then input_failure got
      else (case scan_ll (dropWhile isspace inp) of
              None \<Rightarrow> (int (length got), got)
            | Some (v, rest) \<Rightarrow> sscanf_run ds rest (got @ [ArgLL v])))"

definition sscanf :: "string \<Rightarrow> directive list \<Rightarrow> int \<times> scanned list" where
  "sscanf inp fmt = sscanf_run fmt inp []"

text \<open>The format strings of \<^verbatim>\<open>client_thread\<close>.\<close>

definition fmt_LIST :: "directive list" where
  "fmt_LIST = map Lit ''LIST''"

definition fmt_UPLOAD :: "directive list" where
  "fmt_UPLOAD = map Lit ''UPLOAD'' @ [Blank, ConvS 1023, Blank, ConvLLD]"

definition fmt_DOWNLOAD :: "directive list" where
  "fmt_DOWNLOAD = map Lit ''DOWNLOAD'' @ [Blank, ConvS 1023]"

definition fmt_RENAME :: "directive list" where
  "fmt_RENAME = map Lit ''RENAME'' @ [Blank, ConvS 1023, Blank, ConvS 1023]"

definition fmt_DELETE :: "directive list" where
  "fmt_DELETE = map Lit ''DELETE'' @ [Blank, ConvS 1023]"

text \<open>
  The variables the conversions assign: \<^verbatim>\<open>a1\<close> and \<^verbatim>\<open>a2\<close> start as empty strings
  (\<^verbatim>\<open>memset\<close>), \<^verbatim>\<open>size\<close> starts as -1.
\<close>

definition arg_str :: "scanned list \<Rightarrow> nat \<Rightarrow> string" where
  "arg_str got k = (if k < length got then (case got ! k of ArgS s \<Rightarrow> s | ArgLL v \<Rightarrow> []) else [])"

definition arg_ll :: "scanned list \<Rightarrow> nat \<Rightarrow> int" where
  "arg_ll got k = (if k < length got then (case got ! k of ArgS s \<Rightarrow> -1 | ArgLL v \<Rightarrow> v) else -1)"

subsection \<open>Dispatcher and connection handler\<close>

datatype conn_state = READY | CLOSED

text \<open>
  A handler call inside the loop of \<^verbatim>\<open>client_thread\<close>: the return value is dropped and
  the loop goes on.
\<close>

definition back_to_ready :: "int \<times> storage \<times> conn \<Rightarrow> conn_state \<times> storage \<times> conn" where
  "back_to_ready res = (READY, fst (snd res), snd (snd res))"

text \<open>The \<^verbatim>\<open>if\<close> / \<^verbatim>\<open>else if\<close> chain of \<^verbatim>\<open>client_thread\<close> on the chomped, non-empty line.\<close>

definition dispatch ::
  "os_env \<Rightarrow> string \<Rightarrow> storage \<Rightarrow> conn \<Rightarrow> string \<Rightarrow> conn_state \<times> storage \<times> conn" where
  "dispatch env dir st c line =
     (if fst (sscanf line fmt_LIST) = 0 \<and> strncmp_eq line ''LIST'' 4
      then back_to_ready (handle_list env dir st c)
      else if fst (sscanf line fmt_UPLOAD) = 2
      then back_to_ready
             (handle_upload env dir st c
                (arg_str (snd (sscanf line fmt_UPLOAD)) 0) (arg_ll (snd (sscanf line fmt_UPLOAD)) 1))
      else if fst (sscanf line fmt_DOWNLOAD) = 1
      then back_to_ready (handle_download env dir st c (arg_str (snd (sscanf line fmt_DOWNLOAD)) 0))
      else if fst (sscanf line fmt_RENAME) = 2
      then back_to_ready
             (handle_rename env dir st c
                (arg_str (snd (sscanf line fmt_RENAME)) 0) (arg_str (snd (sscanf line fmt_RENAME)) 1))
      else if fst (sscanf line fmt_DELETE) = 1
      then back_to_ready (handle_delete env dir st c (arg_str (snd (sscanf line fmt_DELETE)) 0))
      else if strncmp_eq line ''QUIT'' 4
      then (CLOSED, st, send_line c (line_of ''OK BYE''))
      else (READY, st, send_line c (line_of ''ERR unknown command'')))"

text \<open>
  One pass through the body of \<^verbatim>\<open>for (;;)\<close> in \<^verbatim>\<open>client_thread\<close>, started in READY:
  \<^verbatim>\<open>recv_line\<close>, \<^verbatim>\<open>if (n <= 0) break\<close>, \<^verbatim>\<open>chomp\<close>, \<^verbatim>\<open>continue\<close> on an empty
  line, dispatch. \<open>CLOSED\<close> is a \<^verbatim>\<open>break\<close>.
\<close>

definition client_step ::
  "os_env \<Rightarrow> string \<Rightarrow> storage \<Rightarrow> conn \<Rightarrow> conn_state \<times> storage \<times> conn" where
  "client_step env dir st c =
     (case recv_line MAX_LINE c of
        (n, line, c1) \<Rightarrow>
          if n \<le> 0 then (CLOSED, st, c1)
          else if chomp line = [] then (READY, st, c1)
          else dispatch env dir st c1 (chomp line))"

text \<open>
  The loop, and \<^verbatim>\<open>client_thread\<close> with its greeting. The loop goes round again only
  while the process is alive: a pass during which a send ended the process is the last
  thing that happens, whatever state the handler would have been in.
\<close>

function client_loop :: "os_env \<Rightarrow> string \<Rightarrow> storage \<Rightarrow> conn \<Rightarrow> storage \<times> conn" where
  "client_loop env dir st c =
     (case client_step env dir st c of
        (CLOSED, st1, c1) \<Rightarrow> (st1, c1)
      | (READY, st1, c1) \<Rightarrow> if alive c1 then client_loop env dir st1 c1 else (st1, c1))"
  by pat_completeness auto

definition client_thread :: "os_env \<Rightarrow> string \<Rightarrow> storage \<Rightarrow> conn \<Rightarrow> storage \<times> conn" where
  "client_thread env dir st c =
     (if alive (send_line c (line_of ''OK WELCOME''))
      then client_loop env dir st (send_line c (line_of ''OK WELCOME''))
      else (st, send_line c (line_of ''OK WELCOME'')))"

subsection \<open>Notions used to state the properties\<close>

text \<open>
  A name the path validator has to refuse, in the words of the specification: it contains
  the substring \<^verbatim>\<open>..\<close>, a forward slash or a backslash. (\<open>strstr\<close> is the substring
  test: see \<open>strstr_iff\<close> below.)
\<close>

definition bad_name :: "string \<Rightarrow> bool" where
  "bad_name name = (strstr name ''..'' \<or> CHR ''/'' \<in> set name \<or> CHR 0x5C \<in> set name)"

text \<open>
  A path is a direct child of the storage root when it is the root, a slash and one
  component that is neither empty nor \<^verbatim>\<open>.\<close> nor \<^verbatim>\<open>..\<close> (these three name the root or
  its parent).
\<close>

definition direct_child :: "string \<Rightarrow> string \<Rightarrow> bool" where
  "direct_child dir path =
     (case entry_name dir path of
        None \<Rightarrow> False
      | Some name \<Rightarrow> name \<noteq> [] \<and> name \<noteq> ''.'' \<and> name \<noteq> ''..'')"

text \<open>
  Error replies start with \<^verbatim>\<open>ERR\<close> and a space. \<open>upload_errors_spec\<close> is the list of
  UPLOAD failure responses in the specification's command table; \<open>upload_errors_code\<close>
  adds the two other error lines \<^verbatim>\<open>handle_upload\<close> can send. \<open>upload_replies\<close> are
  all the lines \<^verbatim>\<open>handle_upload\<close> can send.
\<close>

definition is_error_line :: "string \<Rightarrow> bool" where
  "is_error_line m = (take 4 m = ''ERR '')"

definition upload_errors_spec :: "string list" where
  "upload_errors_spec =
     [line_of ''ERR invalid size'', line_of ''ERR bad filename'',
      line_of ''ERR cannot open file for write'', line_of ''ERR recv data failed'',
      line_of ''ERR write failed'']"

definition upload_errors_code :: "string list" where
  "upload_errors_code = upload_errors_spec @ [line_of ''ERR cannot lock file'', line_of ''ERR server oom'']"

definition upload_replies :: "string list" where
  "upload_replies = [line_of ''OK'', line_of ''OK SAVED''] @ upload_errors_code"

text \<open>
  Between the connection \<open>c\<close> and the later connection \<open>c'\<close>, only lines of \<open>ls\<close> were
  delivered, after everything delivered before.
\<close>

definition replied_within :: "string list \<Rightarrow> conn \<Rightarrow> conn \<Rightarrow> bool" where
  "replied_within ls c c' =
     (sent c' = sent c @ drop (length (sent c)) (sent c')
      \<and> set (drop (length (sent c)) (sent c')) \<subseteq> set ls)"

section \<open>Auxiliary facts about the model\<close>

subsection \<open>Strings, paths and the storage list\<close>

lemma send_all_delivered:
  "alive c \<Longrightarrow> send_fates c = [] \<Longrightarrow>
   send_all c bytes = (int (length bytes), c\<lparr>sent := sent c @ [bytes]\<rparr>)"
  by (simp add: send_all_def)

lemma send_line_delivered:
  "alive c \<Longrightarrow> send_fates c = [] \<Longrightarrow>
   send_line c m = c\<lparr>sent := sent c @ [take (MAX_LINE - 1) m]\<rparr>"
  by (simp add: send_line_def send_all_delivered)

lemma send_all_frame:
  "pending (snd (send_all c bytes)) = pending c \<and> at_end (snd (send_all c bytes)) = at_end c"
  by (simp add: send_all_def split: list.splits send_fate.splits)

lemma send_all_sent:
  "sent (snd (send_all c bytes)) = sent c \<or> sent (snd (send_all c bytes)) = sent c @ [bytes]"
  by (simp add: send_all_def split: list.splits send_fate.splits)

lemma pending_send_line: "pending (send_line c m) = pending c"
  by (simp add: send_line_def send_all_frame)

lemma at_end_send_line: "at_end (send_line c m) = at_end c"
  by (simp add: send_line_def send_all_frame)

lemma sent_send_line:
  "sent (send_line c m) = sent c \<or> sent (send_line c m) = sent c @ [take (MAX_LINE - 1) m]"
  by (simp add: send_line_def send_all_sent)

lemma strstr_iff: "strstr hay needle \<longleftrightarrow> (\<exists>ps ss. hay = ps @ needle @ ss)"
proof (induction hay)
  case Nil
  then show ?case by auto
next
  case (Cons c cs)
  show ?case
  proof
    assume "strstr (c # cs) needle"
    then consider "take (length needle) (c # cs) = needle" | "strstr cs needle" by auto
    then show "\<exists>ps ss. c # cs = ps @ needle @ ss"
    proof cases
      case 1
      then have "c # cs = [] @ needle @ drop (length needle) (c # cs)"
        by (metis append_Nil append_take_drop_id)
      then show ?thesis by blast
    next
      case 2
      then obtain ps ss where "cs = ps @ needle @ ss" using Cons.IH by blast
      then have "c # cs = (c # ps) @ needle @ ss" by simp
      then show ?thesis by blast
    qed
  next
    assume "\<exists>ps ss. c # cs = ps @ needle @ ss"
    then obtain ps ss where eq: "c # cs = ps @ needle @ ss" by blast
    show "strstr (c # cs) needle"
    proof (cases ps)
      case Nil
      then have "take (length needle) (c # cs) = needle" using eq by simp
      then show ?thesis by simp
    next
      case (Cons p ps')
      then have "cs = ps' @ needle @ ss" using eq by simp
      then have "strstr cs needle" using Cons.IH by blast
      then show ?thesis by simp
    qed
  qed
qed

lemma entry_name_join: "CHR ''/'' \<notin> set name \<Longrightarrow> entry_name dir (dir @ ''/'' @ name) = Some name"
  by (simp add: entry_name_def)

lemma path_join_SomeD:
  assumes "path_join cap dir name = Some p"
  shows "p = dir @ ''/'' @ name" and "\<not> strstr name ''..''" and "CHR ''/'' \<notin> set name"
    and "CHR 0x5C \<notin> set name" and "length p < cap"
  using assms by (auto simp: path_join_def strchr_def Let_def split: if_splits)

lemma map_of_fs_put: "map_of (fs_put st k v) = (map_of st)(k \<mapsto> v)"
  by (induction st k v rule: fs_put.induct) auto

lemma map_of_fs_remove: "map_of (fs_remove st k) k = None"
  by (induction st) (auto simp: fs_remove_def)

lemma recv_line_loop_full:
  "k \<le> length ps \<Longrightarrow> LF \<notin> set (take k ps) \<Longrightarrow> length out + k + 1 = cap \<Longrightarrow>
   recv_line_loop cap e out ps = (int (length out + k), out @ take k ps, drop k ps)"
proof (induction k arbitrary: out ps)
  case 0
  then show ?case by (simp add: recv_line_loop.simps)
next
  case (Suc k)
  then obtain ch rest where ps: "ps = ch # rest" by (cases ps) auto
  with Suc.prems have ch: "ch \<noteq> LF" and k: "k \<le> length rest" and nolf: "LF \<notin> set (take k rest)"
    by auto
  have "recv_line_loop cap e (out @ [ch]) rest =
        (int (length (out @ [ch]) + k), (out @ [ch]) @ take k rest, drop k rest)"
    using Suc.IH [OF k nolf] Suc.prems(3) by simp
  moreover have "length out + 1 < cap" using Suc.prems(3) by simp
  ultimately show ?case using ps ch
    by (subst recv_line_loop.simps) simp
qed

lemma recv_line_loop_eof:
  "LF \<notin> set ps \<Longrightarrow> length out + length ps + 1 < cap \<Longrightarrow>
   recv_line_loop cap PeerClosed out ps = (int (length out + length ps), out @ ps, [])"
proof (induction ps arbitrary: out)
  case Nil
  then show ?case by (simp add: recv_line_loop.simps)
next
  case (Cons ch rest)
  then have "recv_line_loop cap PeerClosed (out @ [ch]) rest =
        (int (length (out @ [ch]) + length rest), (out @ [ch]) @ rest, [])"
    by (intro Cons.IH) auto
  then show ?case using Cons.prems
    by (subst recv_line_loop.simps) auto
qed

lemma recv_line_loop_win_eof:
  "LF \<notin> set ps \<Longrightarrow> length out + length ps + 1 < cap \<Longrightarrow>
   fst (recv_line_loop_win cap out ps) = -1"
proof (induction ps arbitrary: out)
  case Nil
  then show ?case by (simp add: recv_line_loop_win.simps)
next
  case (Cons ch rest)
  then have "fst (recv_line_loop_win cap (out @ [ch]) rest) = -1"
    by (intro Cons.IH) auto
  then show ?case using Cons.prems
    by (subst recv_line_loop_win.simps) auto
qed

lemma recv_line_loop_consumes:
  "recv_line_loop cap e out ps = (n, buf, rest) \<Longrightarrow> 0 \<le> n \<Longrightarrow>
   n = int (length out) + int (length ps) - int (length rest) \<and> length rest \<le> length ps"
proof (induction cap e out ps arbitrary: n buf rest rule: recv_line_loop.induct)
  case (1 cap e out ps)
  show ?case
  proof (cases "length out + 1 < cap")
    case False
    then show ?thesis using "1.prems" by (auto simp: recv_line_loop.simps)
  next
    case True
    show ?thesis
    proof (cases ps)
      case Nil
      then show ?thesis using "1.prems" True
        by (auto simp: recv_line_loop.simps split: stream_end.splits if_splits)
    next
      case (Cons ch tl)
      show ?thesis
      proof (cases "ch = LF")
        case True
        then show ?thesis using "1.prems" \<open>length out + 1 < cap\<close> Cons
          by (auto simp: recv_line_loop.simps)
      next
        case False
        then have "recv_line_loop cap e (out @ [ch]) tl = (n, buf, rest)"
          using "1.prems" True Cons by (simp add: recv_line_loop.simps)
        from "1.IH" [OF True Cons False this "1.prems"(2)] show ?thesis using Cons by simp
      qed
    qed
  qed
qed

subsection \<open>The receive loop of an upload\<close>

lemma recv_all_frame:
  assumes "recv_all c len = (n, buf, c1)"
  shows "send_fates c1 = send_fates c" and "alive c1 = alive c"
  using assms by (auto simp: recv_all_def split: if_splits stream_end.splits)

lemma recv_all_result:
  assumes "recv_all c len = (n, buf, c1)"
  shows "sent c1 = sent c" and "at_end c1 = at_end c"
    and "0 < n \<Longrightarrow> buf = take (nat n) (pending c) \<and> pending c1 = drop (nat n) (pending c)
           \<and> nat n \<le> length (pending c) \<and> nat n \<le> len"
    and "n \<le> 0 \<Longrightarrow> 0 < len \<Longrightarrow> pending c1 = [] \<and> length (pending c) < len"
  using assms by (auto simp: recv_all_def split: if_splits stream_end.splits)

lemma sys_write_full:
  assumes "sys_write room buf = (w, stored, room1)" and "w = int (length buf)"
  shows "stored = buf"
  using assms by (auto simp: sys_write_def split: option.splits if_splits)

lemma sys_write_short:
  assumes "sys_write room buf = (w, stored, room1)" and "w \<noteq> int (length buf)"
  shows "\<exists>k<length buf. stored = take k buf"
proof (cases room)
  case None
  then show ?thesis using assms by (simp add: sys_write_def)
next
  case (Some r)
  then have "r < length buf" and "stored = take r buf"
    using assms by (auto simp: sys_write_def split: if_splits)
  then show ?thesis by blast
qed

lemma upload_loop_result:
  "upload_loop room written c remaining = (r, w', c') \<Longrightarrow>
     sent c' = sent c \<and> at_end c' = at_end c \<and> length (pending c') \<le> length (pending c) \<and>
     (r = Saved \<longrightarrow> nat remaining \<le> length (pending c)
         \<and> w' = written @ take (nat remaining) (pending c)
         \<and> pending c' = drop (nat remaining) (pending c)) \<and>
     (r \<noteq> Saved \<longrightarrow> (\<exists>k<nat remaining. w' = written @ take k (pending c)))"
proof (induction room written c remaining arbitrary: r w' c' rule: upload_loop.induct)
  case (1 room written c remaining)
  show ?case
  proof (cases "remaining > 0")
    case False
    then show ?thesis using "1.prems" by (auto simp: upload_loop.simps)
  next
    case pos: True
    define chunk where "chunk = (if remaining > int BUF then BUF else nat remaining)"
    have chunk: "0 < chunk" "chunk \<le> nat remaining"
      using pos by (auto simp: chunk_def BUF_def)
    obtain n buf c1 where ra: "recv_all c chunk = (n, buf, c1)"
      by (cases "recv_all c chunk") auto
    note r1 = recv_all_result [OF ra]
    show ?thesis
    proof (cases "n \<le> 0")
      case True
      then have "r = RecvFailed" "w' = written" "c' = c1"
        using "1.prems" pos ra by (simp_all add: upload_loop.simps chunk_def)
      moreover have "written = written @ take 0 (pending c)" by simp
      ultimately show ?thesis using r1(1,2) r1(4) [OF True chunk(1)] pos
        by (metis list.size(3) le0 upload_end.distinct(1) zero_less_nat_eq)
    next
      case npos: False
      then have n: "buf = take (nat n) (pending c)" "pending c1 = drop (nat n) (pending c)"
        "nat n \<le> length (pending c)" "nat n \<le> chunk"
        using r1(3) by auto
      have lenbuf: "int (length (take (nat n) buf)) = n" using n npos by simp
      obtain w stored room1 where sw: "sys_write room (take (nat n) buf) = (w, stored, room1)"
        by (cases "sys_write room (take (nat n) buf)") auto
      show ?thesis
      proof (cases "w = n")
        case False
        then have res: "r = WriteFailed" "w' = written @ stored" "c' = c1"
          using "1.prems" pos npos ra sw by (simp_all add: upload_loop.simps chunk_def)
        have "w \<noteq> int (length (take (nat n) buf))" using False lenbuf by simp
        from sys_write_short [OF sw this] obtain k
          where k: "k < length (take (nat n) buf)" "stored = take k (take (nat n) buf)" by blast
        then have kn: "k < nat n" by simp
        then have "k < nat remaining" using n(4) chunk(2) by linarith
        moreover have "stored = take k (pending c)"
          using k(2) kn n(1) by (simp add: min_def)
        ultimately have "k < nat remaining" "stored = take k (pending c)" .
        then show ?thesis using res r1(1,2) n by auto
      next
        case True
        then have stored: "stored = take (nat n) (pending c)"
          using sys_write_full [OF sw] lenbuf n by simp
        have rec: "upload_loop room1 (written @ stored) c1 (remaining - n) = (r, w', c')"
          using True "1.prems" pos npos ra sw by (simp add: upload_loop.simps chunk_def)
        have IH: "sent c' = sent c1 \<and> at_end c' = at_end c1 \<and> length (pending c') \<le> length (pending c1) \<and>
          (r = Saved \<longrightarrow> nat (remaining - n) \<le> length (pending c1)
             \<and> w' = (written @ stored) @ take (nat (remaining - n)) (pending c1)
             \<and> pending c' = drop (nat (remaining - n)) (pending c1)) \<and>
          (r \<noteq> Saved \<longrightarrow> (\<exists>k<nat (remaining - n). w' = (written @ stored) @ take k (pending c1)))"
          using "1.IH" [OF pos ra [unfolded chunk_def, symmetric] refl npos sw [symmetric] refl _ rec] True
          by simp
        have nle: "n \<le> remaining" using n(4) chunk(2) pos npos by linarith
        have split: "nat remaining = nat n + nat (remaining - n)" using nle npos by linarith
        have takeadd: "\<And>j. take (nat n) (pending c) @ take j (drop (nat n) (pending c)) = take (nat n + j) (pending c)"
          by (simp add: take_add)
        show ?thesis
        proof (intro conjI impI)
          show "sent c' = sent c" using IH r1(1) by simp
          show "at_end c' = at_end c" using IH r1(2) by simp
          have "length (pending c') \<le> length (pending c1)" using IH by blast
          also have "\<dots> \<le> length (pending c)" using n(2) by simp
          finally show "length (pending c') \<le> length (pending c)" .
        next
          assume "r = Saved"
          with IH have a: "nat (remaining - n) \<le> length (pending c1)"
            and b: "w' = (written @ stored) @ take (nat (remaining - n)) (pending c1)"
            and c: "pending c' = drop (nat (remaining - n)) (pending c1)" by auto
          show "nat remaining \<le> length (pending c)" using a n(2,3) split by simp
          show "w' = written @ take (nat remaining) (pending c)"
            using b stored n(2) takeadd split by simp
          show "pending c' = drop (nat remaining) (pending c)"
            using c n(2) split by (simp add: add.commute)
        next
          assume "r \<noteq> Saved"
          with IH obtain k where k: "k < nat (remaining - n)" "w' = (written @ stored) @ take k (pending c1)"
            by auto
          then have "w' = written @ take (nat n + k) (pending c)"
            using stored n(2) takeadd by simp
          moreover have "nat n + k < nat remaining" using k(1) split by simp
          ultimately show "\<exists>k<nat remaining. w' = written @ take k (pending c)" by blast
        qed
      qed
    qed
  qed
qed


subsection \<open>Handlers never put bytes back; the connection loop terminates\<close>

lemma list_entries_pending:
  "pending (list_entries dir st ds c) = pending c \<and> at_end (list_entries dir st ds c) = at_end c"
  by (induction dir st ds c rule: list_entries.induct)
     (auto simp: pending_send_line at_end_send_line split: option.splits node.splits)

lemma foldl_send_line_pending:
  "pending (foldl (\<lambda>k e. send_line k (f e)) c es) = pending c"
  by (induction es arbitrary: c) (auto simp: pending_send_line)

lemma handle_list_pending: "pending (snd (snd (handle_list env dir st c))) = pending c"
  by (simp add: handle_list_def Let_def pending_send_line list_entries_pending)

lemma handle_upload_pending:
  "length (pending (snd (snd (handle_upload env dir st c name sz)))) \<le> length (pending c)"
proof -
  have "\<And>r w c2. upload_loop (write_room env) [] (send_line c (line_of ''OK'')) sz = (r, w, c2)
          \<Longrightarrow> length (pending c2) \<le> length (pending c)"
    using upload_loop_result pending_send_line by metis
  then show ?thesis
    by (auto simp: handle_upload_def pending_send_line
             split: option.splits prod.splits upload_end.splits)
qed

lemma pending_send_raw: "pending (snd (send_raw c bytes)) = pending c"
  by (simp add: send_raw_def send_all_frame)

lemma handle_download_pending: "pending (snd (snd (handle_download env dir st c name))) = pending c"
proof -
  have "\<And>k bytes failed c1. send_raw k bytes = (failed, c1) \<Longrightarrow> pending c1 = pending k"
    using pending_send_raw by (metis snd_conv)
  then show ?thesis
    by (auto simp: handle_download_def pending_send_line split: option.splits node.splits prod.splits)
qed

lemma handle_rename_pending: "pending (snd (snd (handle_rename env dir st c a b))) = pending c"
  by (auto simp: handle_rename_def pending_send_line split: option.splits)

lemma handle_delete_pending: "pending (snd (snd (handle_delete env dir st c name))) = pending c"
  by (auto simp: handle_delete_def pending_send_line split: option.splits)

lemma dispatch_pending:
  "length (pending (snd (snd (dispatch env dir st c line)))) \<le> length (pending c)"
  by (simp add: dispatch_def back_to_ready_def handle_list_pending handle_upload_pending
        handle_download_pending handle_rename_pending handle_delete_pending pending_send_line)

lemma recv_line_consumes:
  assumes "recv_line cap c = (n, buf, c1)" and "0 < n"
  shows "length (pending c1) < length (pending c)"
proof -
  obtain rest where loop: "recv_line_loop cap (at_end c) [] (pending c) = (n, buf, rest)"
    and c1: "c1 = c\<lparr>pending := rest\<rparr>"
    using assms(1) by (auto simp: recv_line_def split: prod.splits)
  from recv_line_loop_consumes [OF loop] assms(2)
  have "n = int (length (pending c)) - int (length rest)" by simp
  with assms(2) c1 show ?thesis by simp
qed

lemma client_step_decreases:
  assumes "client_step env dir st c = (READY, st1, c1)"
  shows "length (pending c1) < length (pending c)"
proof -
  obtain n buf c0 where rl: "recv_line MAX_LINE c = (n, buf, c0)"
    by (cases "recv_line MAX_LINE c") auto
  with assms have pos: "0 < n" by (auto simp: client_step_def split: if_splits)
  have lt: "length (pending c0) < length (pending c)" by (rule recv_line_consumes [OF rl pos])
  show ?thesis
  proof (cases "chomp buf = []")
    case True
    then show ?thesis using assms rl pos lt by (simp add: client_step_def)
  next
    case False
    then have "dispatch env dir st c0 (chomp buf) = (READY, st1, c1)"
      using assms rl pos by (simp add: client_step_def)
    then have "length (pending c1) \<le> length (pending c0)"
      using dispatch_pending [of env dir st c0 "chomp buf"] by simp
    then show ?thesis using lt by simp
  qed
qed

termination client_loop
proof (relation "measure (\<lambda>(env, dir, st, c). length (pending c))")
  show "wf (measure (\<lambda>(env, dir, st, c). length (pending c)))" by simp
next
  fix env dir st c x y xa ya
  assume "(x, y) = client_step env dir st c" and "x = READY" and "(xa, ya) = y"
  then have "client_step env dir st c = (READY, xa, ya)" by simp
  then have "length (pending ya) < length (pending c)" by (rule client_step_decreases)
  then show "((env, dir, xa, ya), env, dir, st, c) \<in> measure (\<lambda>(env, dir, st, c). length (pending c))"
    by simp
qed

declare client_loop.simps [simp del]

lemma client_step_at_end:
  "pending c = [] \<Longrightarrow> client_step env dir st c = (CLOSED, st, c)"
  by (cases "at_end c") (simp_all add: client_step_def recv_line_def recv_line_loop.simps MAX_LINE_def)

lemma client_loop_at_end:
  "pending c = [] \<Longrightarrow> client_loop env dir st c = (st, c)"
  by (subst client_loop.simps) (simp add: client_step_at_end)

subsection \<open>Constant replies, the storage list, and the first characters of a line\<close>

lemma send_const [simp]:
  assumes "alive c" and "send_fates c = []"
  shows "send_line c (line_of ''ERR invalid size'') = c\<lparr>sent := sent c @ [line_of ''ERR invalid size'']\<rparr>"
    and "send_line c (line_of ''ERR bad filename'') = c\<lparr>sent := sent c @ [line_of ''ERR bad filename'']\<rparr>"
    and "send_line c (line_of ''ERR cannot open file for write'') = c\<lparr>sent := sent c @ [line_of ''ERR cannot open file for write'']\<rparr>"
    and "send_line c (line_of ''ERR cannot lock file'') = c\<lparr>sent := sent c @ [line_of ''ERR cannot lock file'']\<rparr>"
    and "send_line c (line_of ''ERR server oom'') = c\<lparr>sent := sent c @ [line_of ''ERR server oom'']\<rparr>"
    and "send_line c (line_of ''ERR recv data failed'') = c\<lparr>sent := sent c @ [line_of ''ERR recv data failed'']\<rparr>"
    and "send_line c (line_of ''ERR write failed'') = c\<lparr>sent := sent c @ [line_of ''ERR write failed'']\<rparr>"
    and "send_line c (line_of ''ERR unknown command'') = c\<lparr>sent := sent c @ [line_of ''ERR unknown command'']\<rparr>"
    and "send_line c (line_of ''ERR delete failed'') = c\<lparr>sent := sent c @ [line_of ''ERR delete failed'']\<rparr>"
    and "send_line c (line_of ''OK'') = c\<lparr>sent := sent c @ [line_of ''OK'']\<rparr>"
    and "send_line c (line_of ''OK SAVED'') = c\<lparr>sent := sent c @ [line_of ''OK SAVED'']\<rparr>"
    and "send_line c (line_of ''OK DELETED'') = c\<lparr>sent := sent c @ [line_of ''OK DELETED'']\<rparr>"
    and "send_line c (line_of ''OK BYE'') = c\<lparr>sent := sent c @ [line_of ''OK BYE'']\<rparr>"
    and "send_line c (line_of ''END'') = c\<lparr>sent := sent c @ [line_of ''END'']\<rparr>"
  using assms by (simp_all add: send_line_delivered line_of_def MAX_LINE_def)

lemma upload_loop_frame:
  "upload_loop room written c remaining = (r, w', c') \<Longrightarrow>
   send_fates c' = send_fates c \<and> alive c' = alive c"
proof (induction room written c remaining arbitrary: r w' c' rule: upload_loop.induct)
  case (1 room written c remaining)
  show ?case
  proof (cases "remaining > 0")
    case False
    then show ?thesis using "1.prems" by (simp add: upload_loop.simps)
  next
    case True
    obtain n buf c1 where ra: "recv_all c (if remaining > int BUF then BUF else nat remaining) = (n, buf, c1)"
      by (cases "recv_all c (if remaining > int BUF then BUF else nat remaining)") auto
    note s1 = recv_all_frame [OF ra]
    show ?thesis
    proof (cases "n \<le> 0")
      case True
      then show ?thesis using "1.prems" \<open>remaining > 0\<close> ra s1 by (simp add: upload_loop.simps)
    next
      case False
      obtain w stored room1 where sw: "sys_write room (take (nat n) buf) = (w, stored, room1)"
        by (cases "sys_write room (take (nat n) buf)") auto
      show ?thesis
      proof (cases "w = n")
        case False
        then show ?thesis using "1.prems" \<open>remaining > 0\<close> \<open>\<not> n \<le> 0\<close> ra sw s1
          by (simp add: upload_loop.simps)
      next
        case True
        then have "upload_loop room1 (written @ stored) c1 (remaining - n) = (r, w', c')"
          using "1.prems" \<open>remaining > 0\<close> \<open>\<not> n \<le> 0\<close> ra sw by (simp add: upload_loop.simps)
        from "1.IH" [OF \<open>remaining > 0\<close> ra [symmetric] refl \<open>\<not> n \<le> 0\<close> sw [symmetric] refl _ this] True
        show ?thesis using s1 by simp
      qed
    qed
  qed
qed

lemma fs_lookup_put:
  "name \<noteq> [] \<Longrightarrow> name \<noteq> ''.'' \<Longrightarrow> name \<noteq> ''..'' \<Longrightarrow> fs_lookup (fs_put st name nd) name = Some nd"
  by (simp add: fs_lookup_def map_of_fs_put)

lemma fs_put_put: "fs_put (fs_put st name a) name b = fs_put st name b"
  by (induction st name a rule: fs_put.induct) auto

lemma take4D: "take 4 l = [a, b, c, d] \<Longrightarrow> \<exists>r. l = a # b # c # d # r"
  by (metis append_Cons append_Nil append_take_drop_id)

lemma chomp_Cons: "x \<noteq> NUL \<Longrightarrow> x \<noteq> LF \<Longrightarrow> x \<noteq> CR \<Longrightarrow> chomp (x # xs) = x # chomp xs"
  by (simp add: chomp_def cstr_def dropWhile_append)

lemma chomp_keeps_verb:
  assumes "take 4 raw = [a, b, c, d]" and "\<forall>x\<in>set [a, b, c, d]. x \<noteq> NUL \<and> x \<noteq> LF \<and> x \<noteq> CR"
  shows "take 4 (chomp raw) = [a, b, c, d]"
proof -
  obtain r where "raw = a # b # c # d # r" using take4D [OF assms(1)] by blast
  then show ?thesis using assms(2) by (simp add: chomp_Cons)
qed

lemma dispatch_list_prefix:
  assumes "take 4 line = ''LIST''"
  shows "dispatch env dir st c line = back_to_ready (handle_list env dir st c)"
proof -
  obtain r where "line = ''LIST'' @ r" using take4D [OF assms] by auto
  then show ?thesis
    by (simp add: dispatch_def sscanf_def fmt_LIST_def strncmp_eq_def)
qed

lemma dispatch_quit_prefix:
  assumes "take 4 line = ''QUIT''"
  shows "dispatch env dir st c line = (CLOSED, st, send_line c (line_of ''OK BYE''))"
proof -
  obtain r where "line = ''QUIT'' @ r" using take4D [OF assms] by auto
  then show ?thesis
    by (simp add: dispatch_def sscanf_def fmt_LIST_def fmt_UPLOAD_def fmt_DOWNLOAD_def
          fmt_RENAME_def fmt_DELETE_def strncmp_eq_def)
qed

lemma dispatch_closed_iff:
  "fst (dispatch env dir st c line) = CLOSED \<longleftrightarrow> take 4 line = ''QUIT''"
proof
  assume "take 4 line = ''QUIT''"
  then show "fst (dispatch env dir st c line) = CLOSED" by (simp add: dispatch_quit_prefix)
next
  assume "fst (dispatch env dir st c line) = CLOSED"
  then show "take 4 line = ''QUIT''"
    by (auto simp: dispatch_def back_to_ready_def strncmp_eq_def split: if_splits)
qed

section \<open>The claims\<close>

subsection \<open>C8: deleting a name that is not there\<close>

text \<open>
  Claim C8. For a filename that passes \<^verbatim>\<open>path_join\<close>: when the storage root has no
  entry of that name, DELETE replies \<^verbatim>\<open>ERR delete failed\<close>, returns -1 and leaves the
  storage as it was (first conjunct). DELETE is not idempotent: directly after a DELETE
  of a name that succeeded, a second DELETE of the same name gets \<^verbatim>\<open>ERR delete failed\<close>
  (second conjunct).
\<close>

theorem C8_delete_missing_fails:
  assumes "path_join MAX_PATH dir name = Some path"
  shows "(fs_lookup st name = None \<longrightarrow>
            handle_delete env dir st c name = (-1, st, send_line c (line_of ''ERR delete failed'')))
       \<and> (handle_delete env dir st c name = (0, st1, c1) \<longrightarrow>
            handle_delete env dir st1 c1 name = (-1, st1, send_line c1 (line_of ''ERR delete failed'')))"
proof (intro conjI impI)
  have path: "path = dir @ ''/'' @ name" and noslash: "CHR ''/'' \<notin> set name"
    using path_join_SomeD [OF assms] by simp_all
  have en: "entry_name dir path = Some name"
    unfolding path by (rule entry_name_join [OF noslash])
  {
    assume "fs_lookup st name = None"
    then have "sys_unlink dir st path = None" by (simp add: sys_unlink_def en)
    then show "handle_delete env dir st c name = (-1, st, send_line c (line_of ''ERR delete failed''))"
      by (simp add: handle_delete_def assms)
  }
  {
    assume ok: "handle_delete env dir st c name = (0, st1, c1)"
    then have "sys_unlink dir st path = Some st1"
      by (auto simp: handle_delete_def assms split: option.splits)
    then obtain bytes where "fs_lookup st name = Some (Reg bytes)" and st1: "st1 = fs_remove st name"
      by (auto simp: sys_unlink_def en split: option.splits node.splits)
    then have "name \<noteq> [] \<and> name \<noteq> ''.'' \<and> name \<noteq> ''..''"
      by (auto simp: fs_lookup_def split: if_splits)
    then have "fs_lookup st1 name = None"
      by (simp add: fs_lookup_def st1 map_of_fs_remove)
    then have "sys_unlink dir st1 path = None" by (simp add: sys_unlink_def en)
    then show "handle_delete env dir st1 c1 name = (-1, st1, send_line c1 (line_of ''ERR delete failed''))"
      by (simp add: handle_delete_def assms)
  }
qed

theorem C8_delete_missing_fails_witness:
  "path_join MAX_PATH ''storage'' ''a.txt'' = Some ''storage/a.txt''
   \<and> fs_lookup [(''b.txt'', Reg ''xyz'')] ''a.txt'' = None
   \<and> handle_delete \<lparr>opendir_fails = False, open_fails = False, lock_fails = False, malloc_fails = False, write_room = None\<rparr>
        ''storage'' [(''b.txt'', Reg ''xyz'')] \<lparr>pending = [], at_end = PeerClosed, sent = [], send_fates = [], alive = True\<rparr> ''a.txt''
      = (-1, [(''b.txt'', Reg ''xyz'')],
         \<lparr>pending = [], at_end = PeerClosed, sent = [line_of ''ERR delete failed''], send_fates = [], alive = True\<rparr>)
   \<and> handle_delete \<lparr>opendir_fails = False, open_fails = False, lock_fails = False, malloc_fails = False, write_room = None\<rparr>
        ''storage'' [(''b.txt'', Reg ''xyz'')] \<lparr>pending = [], at_end = PeerClosed, sent = [], send_fates = [], alive = True\<rparr> ''b.txt''
      = (0, [], \<lparr>pending = [], at_end = PeerClosed, sent = [line_of ''OK DELETED''], send_fates = [], alive = True\<rparr>)
   \<and> handle_delete \<lparr>opendir_fails = False, open_fails = False, lock_fails = False, malloc_fails = False, write_room = None\<rparr>
        ''storage'' [] \<lparr>pending = [], at_end = PeerClosed, sent = [line_of ''OK DELETED''], send_fates = [], alive = True\<rparr> ''b.txt''
      = (-1, [], \<lparr>pending = [], at_end = PeerClosed, sent = [line_of ''OK DELETED'', line_of ''ERR delete failed''], send_fates = [], alive = True\<rparr>)"
proof -
  have pa: "path_join MAX_PATH ''storage'' ''a.txt'' = Some ''storage/a.txt''"
    by (simp add: path_join_def strchr_def MAX_PATH_def)
  have pb: "path_join MAX_PATH ''storage'' ''b.txt'' = Some ''storage/b.txt''"
    by (simp add: path_join_def strchr_def MAX_PATH_def)
  have la: "fs_lookup [(''b.txt'', Reg ''xyz'')] ''a.txt'' = None"
    by (simp add: fs_lookup_def)
  have del: "handle_delete \<lparr>opendir_fails = False, open_fails = False, lock_fails = False, malloc_fails = False, write_room = None\<rparr>
        ''storage'' [(''b.txt'', Reg ''xyz'')] \<lparr>pending = [], at_end = PeerClosed, sent = [], send_fates = [], alive = True\<rparr> ''b.txt''
      = (0, [], \<lparr>pending = [], at_end = PeerClosed, sent = [line_of ''OK DELETED''], send_fates = [], alive = True\<rparr>)"
    by (simp add: handle_delete_def pb sys_unlink_def entry_name_def fs_lookup_def fs_remove_def
          send_line_def send_all_def line_of_def MAX_LINE_def)
  show ?thesis
    using C8_delete_missing_fails [OF pa, where st = "[(''b.txt'', Reg ''xyz'')]"
          and env = "\<lparr>opendir_fails = False, open_fails = False, lock_fails = False, malloc_fails = False, write_room = None\<rparr>"
          and c = "\<lparr>pending = [], at_end = PeerClosed, sent = [], send_fates = [], alive = True\<rparr>",
          THEN conjunct1, rule_format, OF la]
      C8_delete_missing_fails [OF pb, THEN conjunct2, rule_format, OF del]
      pa la del
    by (simp add: send_line_def send_all_def line_of_def MAX_LINE_def)
qed

subsection \<open>C9: LIST and QUIT are recognised by their first four characters\<close>

text \<open>
  Claim C9. Let \<^verbatim>\<open>recv_line\<close> deliver a line (\<open>0 < n\<close>) whose first four characters
  are \<^verbatim>\<open>LIST\<close>: whatever follows them (for example \<^verbatim>\<open>LISTED x\<close>), the pass through the
  loop of \<^verbatim>\<open>client_thread\<close> is the call of \<^verbatim>\<open>handle_list\<close> and the handler stays in
  READY. When the first four characters are \<^verbatim>\<open>QUIT\<close> (for example \<^verbatim>\<open>QUITTING\<close>), the
  server sends \<^verbatim>\<open>OK BYE\<close> and leaves the loop (CLOSED); the line is not answered with
  \<^verbatim>\<open>ERR unknown command\<close>.
\<close>

theorem C9_verbs_by_prefix:
  assumes "recv_line MAX_LINE c = (n, raw, c1)" and "0 < n"
  shows "(take 4 raw = ''LIST'' \<longrightarrow>
            client_step env dir st c = back_to_ready (handle_list env dir st c1))
       \<and> (take 4 raw = ''QUIT'' \<longrightarrow>
            client_step env dir st c = (CLOSED, st, send_line c1 (line_of ''OK BYE'')))"
proof (intro conjI impI)
  assume raw: "take 4 raw = ''LIST''"
  have "take 4 (chomp raw) = ''LIST''"
    by (rule chomp_keeps_verb [OF raw]) (simp add: NUL_def LF_def CR_def)
  moreover from this have "chomp raw \<noteq> []" by auto
  ultimately show "client_step env dir st c = back_to_ready (handle_list env dir st c1)"
    using assms by (simp add: client_step_def dispatch_list_prefix)
next
  assume raw: "take 4 raw = ''QUIT''"
  have "take 4 (chomp raw) = ''QUIT''"
    by (rule chomp_keeps_verb [OF raw]) (simp add: NUL_def LF_def CR_def)
  moreover from this have "chomp raw \<noteq> []" by auto
  ultimately show "client_step env dir st c = (CLOSED, st, send_line c1 (line_of ''OK BYE''))"
    using assms by (simp add: client_step_def dispatch_quit_prefix)
qed


theorem C9_verbs_by_prefix_witness:
  "recv_line MAX_LINE \<lparr>pending = line_of ''LISTED x'', at_end = PeerClosed, sent = [], send_fates = [], alive = True\<rparr>
     = (9, line_of ''LISTED x'', \<lparr>pending = [], at_end = PeerClosed, sent = [], send_fates = [], alive = True\<rparr>)
   \<and> take 4 (line_of ''LISTED x'') = ''LIST''
   \<and> client_step \<lparr>opendir_fails = False, open_fails = False, lock_fails = False, malloc_fails = False, write_room = None\<rparr>
        ''storage'' [] \<lparr>pending = line_of ''LISTED x'', at_end = PeerClosed, sent = [], send_fates = [], alive = True\<rparr>
     = back_to_ready (handle_list \<lparr>opendir_fails = False, open_fails = False, lock_fails = False, malloc_fails = False, write_room = None\<rparr>
        ''storage'' [] \<lparr>pending = [], at_end = PeerClosed, sent = [], send_fates = [], alive = True\<rparr>)
   \<and> recv_line MAX_LINE \<lparr>pending = line_of ''QUITTING'', at_end = PeerClosed, sent = [], send_fates = [], alive = True\<rparr>
     = (9, line_of ''QUITTING'', \<lparr>pending = [], at_end = PeerClosed, sent = [], send_fates = [], alive = True\<rparr>)
   \<and> take 4 (line_of ''QUITTING'') = ''QUIT''
   \<and> client_step \<lparr>opendir_fails = False, open_fails = False, lock_fails = False, malloc_fails = False, write_room = None\<rparr>
        ''storage'' [] \<lparr>pending = line_of ''QUITTING'', at_end = PeerClosed, sent = [], send_fates = [], alive = True\<rparr>
     = (CLOSED, [], \<lparr>pending = [], at_end = PeerClosed, sent = [line_of ''OK BYE''], send_fates = [], alive = True\<rparr>)"
proof -
  have r1: "recv_line MAX_LINE \<lparr>pending = line_of ''LISTED x'', at_end = PeerClosed, sent = [], send_fates = [], alive = True\<rparr>
     = (9, line_of ''LISTED x'', \<lparr>pending = [], at_end = PeerClosed, sent = [], send_fates = [], alive = True\<rparr>)"
    by (simp add: recv_line_def recv_line_loop.simps MAX_LINE_def line_of_def LF_def)
  have r2: "recv_line MAX_LINE \<lparr>pending = line_of ''QUITTING'', at_end = PeerClosed, sent = [], send_fates = [], alive = True\<rparr>
     = (9, line_of ''QUITTING'', \<lparr>pending = [], at_end = PeerClosed, sent = [], send_fates = [], alive = True\<rparr>)"
    by (simp add: recv_line_def recv_line_loop.simps MAX_LINE_def line_of_def LF_def)
  have t1: "take 4 (line_of ''LISTED x'') = ''LIST''" by (simp add: line_of_def)
  have t2: "take 4 (line_of ''QUITTING'') = ''QUIT''" by (simp add: line_of_def)
  have pos: "(0::int) < 9" by simp
  show ?thesis
    using C9_verbs_by_prefix [OF r1 pos, THEN conjunct1, rule_format, OF t1]
      C9_verbs_by_prefix [OF r2 pos, THEN conjunct2, rule_format, OF t2] r1 r2 t1 t2
    by (simp add: send_line_def send_all_def MAX_LINE_def line_of_def)
qed

subsection \<open>C7: the line codec at the end of the stream\<close>

text \<open>
  Claim C7 says that a line cut off by the end of the stream (at least one byte, no
  newline) is reported as an error. In server.c it is not: the peer sends the eight bytes
  \<^verbatim>\<open>DELETE a\<close> and closes; \<^verbatim>\<open>recv_line\<close> returns 8 with these bytes as the line, and
  \<^verbatim>\<open>client_thread\<close> carries the command out (the file is removed, \<^verbatim>\<open>OK DELETED\<close> is
  sent).
\<close>

theorem C7_truncated_line_counterexample:
  "recv_line MAX_LINE \<lparr>pending = ''DELETE a'', at_end = PeerClosed, sent = [], send_fates = [], alive = True\<rparr>
     = (8, ''DELETE a'', \<lparr>pending = [], at_end = PeerClosed, sent = [], send_fates = [], alive = True\<rparr>)
   \<and> client_step \<lparr>opendir_fails = False, open_fails = False, lock_fails = False, malloc_fails = False, write_room = None\<rparr>
        ''storage'' [(''a'', Reg ''xyz'')] \<lparr>pending = ''DELETE a'', at_end = PeerClosed, sent = [], send_fates = [], alive = True\<rparr>
     = (READY, [], \<lparr>pending = [], at_end = PeerClosed, sent = [line_of ''OK DELETED''], send_fates = [], alive = True\<rparr>)"
proof -
  have rl: "recv_line MAX_LINE \<lparr>pending = ''DELETE a'', at_end = PeerClosed, sent = [], send_fates = [], alive = True\<rparr>
     = (8, ''DELETE a'', \<lparr>pending = [], at_end = PeerClosed, sent = [], send_fates = [], alive = True\<rparr>)"
    by (simp add: recv_line_def recv_line_loop.simps MAX_LINE_def LF_def)
  have ch: "chomp ''DELETE a'' = ''DELETE a''"
    by (simp add: chomp_def cstr_def NUL_def LF_def CR_def)
  have sc: "sscanf ''DELETE a'' fmt_DELETE = (1, [ArgS ''a''])"
    by (simp add: sscanf_def fmt_DELETE_def isspace_def)
  have pj: "path_join MAX_PATH ''storage'' ''a'' = Some ''storage/a''"
    by (simp add: path_join_def strchr_def MAX_PATH_def)
  have hd: "handle_delete \<lparr>opendir_fails = False, open_fails = False, lock_fails = False, malloc_fails = False, write_room = None\<rparr>
        ''storage'' [(''a'', Reg ''xyz'')] \<lparr>pending = [], at_end = PeerClosed, sent = [], send_fates = [], alive = True\<rparr> ''a''
      = (0, [], \<lparr>pending = [], at_end = PeerClosed, sent = [line_of ''OK DELETED''], send_fates = [], alive = True\<rparr>)"
    by (simp add: handle_delete_def pj sys_unlink_def entry_name_def fs_lookup_def fs_remove_def
          send_line_def send_all_def line_of_def MAX_LINE_def)
  have di: "dispatch \<lparr>opendir_fails = False, open_fails = False, lock_fails = False, malloc_fails = False, write_room = None\<rparr>
        ''storage'' [(''a'', Reg ''xyz'')] \<lparr>pending = [], at_end = PeerClosed, sent = [], send_fates = [], alive = True\<rparr> ''DELETE a''
      = (READY, [], \<lparr>pending = [], at_end = PeerClosed, sent = [line_of ''OK DELETED''], send_fates = [], alive = True\<rparr>)"
  proof -
    have others: "fst (sscanf ''DELETE a'' fmt_UPLOAD) = 0" "fst (sscanf ''DELETE a'' fmt_DOWNLOAD) = 0"
      "fst (sscanf ''DELETE a'' fmt_RENAME) = 0"
      by (simp_all add: sscanf_def fmt_UPLOAD_def fmt_DOWNLOAD_def fmt_RENAME_def)
    show ?thesis
      by (simp add: dispatch_def others sc hd back_to_ready_def arg_str_def strncmp_eq_def)
  qed
  show ?thesis
    by (simp add: rl client_step_def ch di)
qed

text \<open>
  Claim C7 as amended. The peer closes after sending fewer than 4095 bytes with no
  newline among them. In server.c \<^verbatim>\<open>recv_line\<close> returns the number of bytes read: 0
  when there were none (peer shutdown), and otherwise a positive count together with
  the unterminated bytes, which are delivered as a line. In server_windows.c
  \<^verbatim>\<open>recv_line\<close> returns \<^verbatim>\<open>SOCKET_ERROR\<close> in both cases.
\<close>

theorem C7_line_at_end_of_stream:
  assumes "at_end c = PeerClosed" and "LF \<notin> set (pending c)" and "length (pending c) < MAX_LINE - 1"
  shows "recv_line MAX_LINE c = (int (length (pending c)), pending c, c\<lparr>pending := []\<rparr>)
       \<and> fst (recv_line_win MAX_LINE c) = -1"
proof
  have "length ([] :: string) + length (pending c) + 1 < MAX_LINE" using assms(3) by simp
  from recv_line_loop_eof [OF assms(2) this]
  show "recv_line MAX_LINE c = (int (length (pending c)), pending c, c\<lparr>pending := []\<rparr>)"
    by (simp add: recv_line_def assms(1))
  have "length ([] :: string) + length (pending c) + 1 < MAX_LINE" using assms(3) by simp
  from recv_line_loop_win_eof [OF assms(2) this]
  show "fst (recv_line_win MAX_LINE c) = -1"
    by (cases "recv_line_loop_win MAX_LINE [] (pending c)") (simp add: recv_line_win_def)
qed

theorem C7_line_at_end_of_stream_witness:
  "at_end \<lparr>pending = ''QUIT'', at_end = PeerClosed, sent = [], send_fates = [], alive = True\<rparr> = PeerClosed
   \<and> LF \<notin> set (pending \<lparr>pending = ''QUIT'', at_end = PeerClosed, sent = [], send_fates = [], alive = True\<rparr>)
   \<and> length (pending \<lparr>pending = ''QUIT'', at_end = PeerClosed, sent = [], send_fates = [], alive = True\<rparr>) < MAX_LINE - 1
   \<and> recv_line MAX_LINE \<lparr>pending = ''QUIT'', at_end = PeerClosed, sent = [], send_fates = [], alive = True\<rparr>
       = (4, ''QUIT'', \<lparr>pending = [], at_end = PeerClosed, sent = [], send_fates = [], alive = True\<rparr>)
   \<and> fst (recv_line_win MAX_LINE \<lparr>pending = ''QUIT'', at_end = PeerClosed, sent = [], send_fates = [], alive = True\<rparr>) = -1
   \<and> recv_line MAX_LINE \<lparr>pending = [], at_end = PeerClosed, sent = [], send_fates = [], alive = True\<rparr>
       = (0, [], \<lparr>pending = [], at_end = PeerClosed, sent = [], send_fates = [], alive = True\<rparr>)
   \<and> fst (recv_line_win MAX_LINE \<lparr>pending = [], at_end = PeerClosed, sent = [], send_fates = [], alive = True\<rparr>) = -1"
proof -
  have a: "at_end \<lparr>pending = ''QUIT'', at_end = PeerClosed, sent = [], send_fates = [], alive = True\<rparr> = PeerClosed" by simp
  have b: "LF \<notin> set (pending \<lparr>pending = ''QUIT'', at_end = PeerClosed, sent = [], send_fates = [], alive = True\<rparr>)"
    by (simp add: LF_def)
  have c: "length (pending \<lparr>pending = ''QUIT'', at_end = PeerClosed, sent = [], send_fates = [], alive = True\<rparr>) < MAX_LINE - 1"
    by (simp add: MAX_LINE_def)
  have a0: "at_end \<lparr>pending = [], at_end = PeerClosed, sent = [], send_fates = [], alive = True\<rparr> = PeerClosed" by simp
  have b0: "LF \<notin> set (pending \<lparr>pending = [], at_end = PeerClosed, sent = [], send_fates = [], alive = True\<rparr>)" by simp
  have c0: "length (pending \<lparr>pending = [], at_end = PeerClosed, sent = [], send_fates = [], alive = True\<rparr>) < MAX_LINE - 1"
    by (simp add: MAX_LINE_def)
  show ?thesis
    using C7_line_at_end_of_stream [OF a b c] C7_line_at_end_of_stream [OF a0 b0 c0] a b c
    by simp
qed

subsection \<open>C1: the path validator\<close>

lemma path_join_bad: "bad_name name \<Longrightarrow> path_join cap dir name = None"
  by (simp add: bad_name_def path_join_def strchr_def)

text \<open>
  Claim C1 fails at two inputs. \<^verbatim>\<open>UPLOAD ../x -1\<close>: the name contains \<^verbatim>\<open>..\<close> and a
  slash, but \<^verbatim>\<open>handle_upload\<close> tests the size first and replies
  \<^verbatim>\<open>ERR invalid size\<close>, not \<^verbatim>\<open>ERR bad filename\<close>. The name \<^verbatim>\<open>.\<close> passes the check and
  joins to \<^verbatim>\<open>storage/.\<close>, which is the storage root itself and not a child of it.
\<close>

theorem C1_upload_negative_size_counterexample:
  "bad_name ''../x''
   \<and> handle_upload \<lparr>opendir_fails = False, open_fails = False, lock_fails = False, malloc_fails = False, write_room = None\<rparr>
        ''storage'' [] \<lparr>pending = [], at_end = PeerClosed, sent = [], send_fates = [], alive = True\<rparr> ''../x'' (-1)
      = (-1, [], \<lparr>pending = [], at_end = PeerClosed, sent = [line_of ''ERR invalid size''], send_fates = [], alive = True\<rparr>)
   \<and> path_join MAX_PATH ''storage'' ''.'' = Some ''storage/.''
   \<and> \<not> direct_child ''storage'' ''storage/.''"
  by (simp add: bad_name_def handle_upload_def send_line_def send_all_def line_of_def MAX_LINE_def
        path_join_def strchr_def MAX_PATH_def direct_child_def entry_name_def)

text \<open>
  Claim C1 as amended. If the name contains \<^verbatim>\<open>..\<close>, a slash or a backslash, then
  DOWNLOAD, RENAME (for either of its two names), DELETE, and UPLOAD with a non-negative
  size reply \<^verbatim>\<open>ERR bad filename\<close>, return -1 and hand the storage back untouched,
  whatever the storage and the environment are; UPLOAD with a negative size replies
  \<^verbatim>\<open>ERR invalid size\<close> in the same way. Every name that passes \<^verbatim>\<open>path_join\<close> is free
  of these patterns and joins to the root, a slash and the name; that path is a direct
  child of the storage root unless the name is empty or \<^verbatim>\<open>.\<close>.
\<close>

theorem C1_bad_names_rejected:
  "(bad_name name \<longrightarrow>
      (0 \<le> sz \<longrightarrow> handle_upload env dir st c name sz = (-1, st, send_line c (line_of ''ERR bad filename'')))
    \<and> (sz < 0 \<longrightarrow> handle_upload env dir st c name sz = (-1, st, send_line c (line_of ''ERR invalid size'')))
    \<and> handle_download env dir st c name = (-1, st, send_line c (line_of ''ERR bad filename''))
    \<and> handle_rename env dir st c name other = (-1, st, send_line c (line_of ''ERR bad filename''))
    \<and> handle_rename env dir st c other name = (-1, st, send_line c (line_of ''ERR bad filename''))
    \<and> handle_delete env dir st c name = (-1, st, send_line c (line_of ''ERR bad filename'')))
 \<and> (path_join MAX_PATH dir name = Some path \<longrightarrow>
      path = dir @ ''/'' @ name \<and> \<not> bad_name name \<and> name \<noteq> ''..''
    \<and> (name \<noteq> [] \<and> name \<noteq> ''.'' \<longrightarrow> direct_child dir path))"
proof (intro conjI impI)
  assume bad: "bad_name name"
  note pj = path_join_bad [OF bad]
  show "handle_download env dir st c name = (-1, st, send_line c (line_of ''ERR bad filename''))"
    by (simp add: handle_download_def pj)
  show "handle_delete env dir st c name = (-1, st, send_line c (line_of ''ERR bad filename''))"
    by (simp add: handle_delete_def pj)
  show "handle_rename env dir st c name other = (-1, st, send_line c (line_of ''ERR bad filename''))"
    by (simp add: handle_rename_def pj)
  show "handle_rename env dir st c other name = (-1, st, send_line c (line_of ''ERR bad filename''))"
    by (simp add: handle_rename_def pj split: option.splits)
  {
    assume "0 \<le> sz"
    then show "handle_upload env dir st c name sz = (-1, st, send_line c (line_of ''ERR bad filename''))"
      by (simp add: handle_upload_def pj)
  }
  {
    assume "sz < 0"
    then show "handle_upload env dir st c name sz = (-1, st, send_line c (line_of ''ERR invalid size''))"
      by (simp add: handle_upload_def)
  }
next
  assume ok: "path_join MAX_PATH dir name = Some path"
  note d = path_join_SomeD [OF ok]
  show "path = dir @ ''/'' @ name" by (rule d(1))
  show nb: "\<not> bad_name name" using d(2,3,4) by (simp add: bad_name_def)
  show "name \<noteq> ''..''" using d(2) by auto
  {
    assume "name \<noteq> [] \<and> name \<noteq> ''.''"
    moreover have "name \<noteq> ''..''" using d(2) by auto
    moreover have "entry_name dir path = Some name"
      unfolding d(1) by (rule entry_name_join [OF d(3)])
    ultimately show "direct_child dir path" by (simp add: direct_child_def)
  }
qed

theorem C1_bad_names_rejected_witness:
  "bad_name ''a/b''
   \<and> handle_download \<lparr>opendir_fails = False, open_fails = False, lock_fails = False, malloc_fails = False, write_room = None\<rparr>
        ''storage'' [(''b'', Reg ''xyz'')] \<lparr>pending = [], at_end = PeerClosed, sent = [], send_fates = [], alive = True\<rparr> ''a/b''
      = (-1, [(''b'', Reg ''xyz'')], \<lparr>pending = [], at_end = PeerClosed, sent = [line_of ''ERR bad filename''], send_fates = [], alive = True\<rparr>)
   \<and> (0::int) \<le> 10
   \<and> handle_upload \<lparr>opendir_fails = False, open_fails = False, lock_fails = False, malloc_fails = False, write_room = None\<rparr>
        ''storage'' [(''b'', Reg ''xyz'')] \<lparr>pending = [], at_end = PeerClosed, sent = [], send_fates = [], alive = True\<rparr> ''a/b'' 10
      = (-1, [(''b'', Reg ''xyz'')], \<lparr>pending = [], at_end = PeerClosed, sent = [line_of ''ERR bad filename''], send_fates = [], alive = True\<rparr>)
   \<and> path_join MAX_PATH ''storage'' ''b'' = Some ''storage/b''
   \<and> ''b'' \<noteq> [] \<and> ''b'' \<noteq> ''.''
   \<and> direct_child ''storage'' ''storage/b''"
proof -
  have bad: "bad_name ''a/b''" by (simp add: bad_name_def)
  have pj: "path_join MAX_PATH ''storage'' ''b'' = Some ''storage/b''"
    by (simp add: path_join_def strchr_def MAX_PATH_def)
  have ne: "''b'' \<noteq> [] \<and> ''b'' \<noteq> ''.''" by simp
  have sz: "(0::int) \<le> 10" by simp
  note thm1 = C1_bad_names_rejected [where name = "''a/b''" and sz = 10 and dir = "''storage''"
      and env = "\<lparr>opendir_fails = False, open_fails = False, lock_fails = False, malloc_fails = False, write_room = None\<rparr>"
      and st = "[(''b'', Reg ''xyz'')]" and c = "\<lparr>pending = [], at_end = PeerClosed, sent = [], send_fates = [], alive = True\<rparr>",
      THEN conjunct1, rule_format, OF bad]
  note thm2 = C1_bad_names_rejected [where name = "''b''" and dir = "''storage''", THEN conjunct2, rule_format, OF pj]
  show ?thesis
    using thm1 [THEN conjunct1, rule_format, OF sz] thm1 [THEN conjunct2, THEN conjunct2, THEN conjunct1]
      thm2 [THEN conjunct2, THEN conjunct2, THEN conjunct2, rule_format, OF ne] bad pj
    by (simp add: send_line_def send_all_def line_of_def MAX_LINE_def)
qed

subsection \<open>C5: the error replies of UPLOAD\<close>

lemma replied_within_same: "sent c' = sent c \<Longrightarrow> replied_within ls c c'"
  by (simp add: replied_within_def)

lemma replied_within_trans:
  assumes "replied_within ls a b" and "replied_within ls b c"
  shows "replied_within ls a c"
proof -
  obtain x where x: "sent b = sent a @ x" "set x \<subseteq> set ls"
    using assms(1) unfolding replied_within_def by blast
  obtain y where y: "sent c = sent b @ y" "set y \<subseteq> set ls"
    using assms(2) unfolding replied_within_def by blast
  have "sent c = sent a @ (x @ y)" using x y by simp
  then show ?thesis using x(2) y(2) by (simp add: replied_within_def)
qed

lemma replied_within_send_line:
  assumes "m \<in> set ls" and "length m < MAX_LINE"
  shows "replied_within ls c (send_line c m)"
  using sent_send_line [of c m] assms by (auto simp: replied_within_def)

lemma upload_replies_short: "m \<in> set upload_replies \<Longrightarrow> length m < MAX_LINE"
  by (auto simp: upload_replies_def upload_errors_code_def upload_errors_spec_def line_of_def MAX_LINE_def)

lemma upload_reply:
  "m \<in> set upload_replies \<Longrightarrow> replied_within upload_replies c (send_line c m)"
  by (simp add: replied_within_send_line upload_replies_short)

lemma upload_replies_mem:
  "line_of ''OK'' \<in> set upload_replies" "line_of ''OK SAVED'' \<in> set upload_replies"
  "line_of ''ERR invalid size'' \<in> set upload_replies" "line_of ''ERR bad filename'' \<in> set upload_replies"
  "line_of ''ERR cannot open file for write'' \<in> set upload_replies"
  "line_of ''ERR cannot lock file'' \<in> set upload_replies" "line_of ''ERR server oom'' \<in> set upload_replies"
  "line_of ''ERR recv data failed'' \<in> set upload_replies" "line_of ''ERR write failed'' \<in> set upload_replies"
  by (simp_all add: upload_replies_def upload_errors_code_def upload_errors_spec_def)

lemma handle_upload_replies:
  assumes "handle_upload env dir st c name sz = (r, st', c')"
  shows "replied_within upload_replies c c'"
proof (cases "sz < 0")
  case True
  then have "c' = send_line c (line_of ''ERR invalid size'')"
    using assms by (auto simp: handle_upload_def)
  then show ?thesis by (simp add: upload_reply upload_replies_mem)
next
  case nonneg: False
  show ?thesis
  proof (cases "path_join MAX_PATH dir name")
    case None
    then have "c' = send_line c (line_of ''ERR bad filename'')"
      using assms nonneg by (auto simp: handle_upload_def)
    then show ?thesis by (simp add: upload_reply upload_replies_mem)
  next
    case (Some path)
    show ?thesis
    proof (cases "sys_open_trunc env dir st path")
      case None
      then have "c' = send_line c (line_of ''ERR cannot open file for write'')"
        using assms nonneg Some by (auto simp: handle_upload_def)
      then show ?thesis by (simp add: upload_reply upload_replies_mem)
    next
      case opened: (Some res)
      obtain fd st1 where res: "res = (fd, st1)" by (cases res) auto
      show ?thesis
      proof (cases "lock_fails env")
        case True
        then have "c' = send_line c (line_of ''ERR cannot lock file'')"
          using assms nonneg Some opened res by (auto simp: handle_upload_def)
        then show ?thesis by (simp add: upload_reply upload_replies_mem)
      next
        case locked: False
        define c1 where "c1 = send_line c (line_of ''OK'')"
        have ok: "replied_within upload_replies c c1"
          unfolding c1_def by (simp add: upload_reply upload_replies_mem)
        show ?thesis
        proof (cases "alive c1")
          case False
          then have "c' = c1"
            using assms nonneg Some opened res locked by (auto simp: handle_upload_def c1_def)
          then show ?thesis using ok by simp
        next
          case live: True
          show ?thesis
          proof (cases "malloc_fails env")
            case True
            then have "c' = send_line c1 (line_of ''ERR server oom'')"
              using assms nonneg Some opened res locked live by (auto simp: handle_upload_def c1_def)
            then have "replied_within upload_replies c1 c'"
              by (simp add: upload_reply upload_replies_mem)
            then show ?thesis using ok replied_within_trans by blast
          next
            case False
            obtain e w c2 where loop: "upload_loop (write_room env) [] c1 sz = (e, w, c2)"
              by (cases "upload_loop (write_room env) [] c1 sz") auto
            have "sent c2 = sent c1" using upload_loop_result [OF loop] by simp
            then have mid: "replied_within upload_replies c1 c2" by (rule replied_within_same)
            have "c' = send_line c2 (line_of ''OK SAVED'') \<or> c' = send_line c2 (line_of ''ERR recv data failed'')
                \<or> c' = send_line c2 (line_of ''ERR write failed'')"
              using assms nonneg Some opened res locked live False loop
              by (cases e) (auto simp: handle_upload_def c1_def)
            then have "replied_within upload_replies c2 c'"
              by (auto simp: upload_reply upload_replies_mem)
            then show ?thesis using ok mid replied_within_trans by blast
          qed
        qed
      qed
    qed
  qed
qed

text \<open>
  Claim C5 limits the error replies of UPLOAD to five lines. When \<^verbatim>\<open>fcntl\<close> cannot
  take the lock, \<^verbatim>\<open>handle_upload\<close> sends \<^verbatim>\<open>ERR cannot lock file\<close>, which is none of
  the five.
\<close>

theorem C5_upload_lock_error_counterexample:
  "sent (snd (snd (handle_upload
       \<lparr>opendir_fails = False, open_fails = False, lock_fails = True, malloc_fails = False, write_room = None\<rparr>
       ''storage'' [] \<lparr>pending = ''abc'', at_end = PeerClosed, sent = [], send_fates = [], alive = True\<rparr> ''f'' 3)))
     = [line_of ''ERR cannot lock file'']
   \<and> is_error_line (line_of ''ERR cannot lock file'')
   \<and> line_of ''ERR cannot lock file'' \<notin> set upload_errors_spec"
  by (simp add: handle_upload_def path_join_def strchr_def MAX_PATH_def sys_open_trunc_def
        entry_name_def fs_lookup_def is_error_line_def upload_errors_spec_def send_line_def
        send_all_def MAX_LINE_def line_of_def)

text \<open>
  Claim C5 as amended. Everything one call of \<^verbatim>\<open>handle_upload\<close> sends is appended to
  what was sent before, and every error line among it is one of seven: the five of the
  specification, \<^verbatim>\<open>ERR cannot lock file\<close> and \<^verbatim>\<open>ERR server oom\<close>.
\<close>

theorem C5_upload_error_replies:
  assumes "handle_upload env dir st c name sz = (r, st', c')"
  shows "sent c' = sent c @ drop (length (sent c)) (sent c')
       \<and> (\<forall>m \<in> set (drop (length (sent c)) (sent c')). is_error_line m \<longrightarrow> m \<in> set upload_errors_code)"
proof -
  from handle_upload_replies [OF assms]
  have sent: "sent c' = sent c @ drop (length (sent c)) (sent c')"
    and within: "set (drop (length (sent c)) (sent c')) \<subseteq> set upload_replies"
    by (simp_all add: replied_within_def)
  have ok: "\<not> is_error_line (line_of ''OK'')" "\<not> is_error_line (line_of ''OK SAVED'')"
    by (simp_all add: is_error_line_def line_of_def)
  have "\<forall>m \<in> set upload_replies. is_error_line m \<longrightarrow> m \<in> set upload_errors_code"
    using ok by (auto simp: upload_replies_def)
  then show ?thesis using sent within by blast
qed

theorem C5_upload_error_replies_witness:
  "handle_upload \<lparr>opendir_fails = False, open_fails = False, lock_fails = False, malloc_fails = True, write_room = None\<rparr>
       ''storage'' [] \<lparr>pending = ''abc'', at_end = PeerClosed, sent = [], send_fates = [], alive = True\<rparr> ''f'' 3
     = (-1, [(''f'', Reg [])], \<lparr>pending = ''abc'', at_end = PeerClosed, sent = [line_of ''OK'', line_of ''ERR server oom''], send_fates = [], alive = True\<rparr>)
   \<and> is_error_line (line_of ''ERR server oom'')
   \<and> line_of ''ERR server oom'' \<in> set upload_errors_code"
proof -
  have run: "handle_upload \<lparr>opendir_fails = False, open_fails = False, lock_fails = False, malloc_fails = True, write_room = None\<rparr>
       ''storage'' [] \<lparr>pending = ''abc'', at_end = PeerClosed, sent = [], send_fates = [], alive = True\<rparr> ''f'' 3
     = (-1, [(''f'', Reg [])], \<lparr>pending = ''abc'', at_end = PeerClosed, sent = [line_of ''OK'', line_of ''ERR server oom''], send_fates = [], alive = True\<rparr>)"
    by (simp add: handle_upload_def path_join_def strchr_def MAX_PATH_def sys_open_trunc_def
        entry_name_def fs_lookup_def)
  have err: "is_error_line (line_of ''ERR server oom'')" by (simp add: is_error_line_def line_of_def)
  show ?thesis using C5_upload_error_replies [OF run] run err by simp
qed

subsection \<open>C4: the count line of LIST\<close>

text \<open>
  Claim C4 requires the number in \<^verbatim>\<open>OK <count>\<close> to be the number of \<^verbatim>\<open>FILE\<close> lines.
  The storage root holds the regular file \<^verbatim>\<open>a\<close> of three bytes and the subdirectory
  \<^verbatim>\<open>sub\<close>. \<^verbatim>\<open>handle_list\<close> of server.c counts both entries and sends \<^verbatim>\<open>OK 2\<close>, then
  the single line \<^verbatim>\<open>FILE a 3\<close>, then \<^verbatim>\<open>END\<close>. \<^verbatim>\<open>handle_list\<close> of server_windows.c
  skips directories in both passes and sends \<^verbatim>\<open>OK 1\<close> on the same directory.
\<close>

theorem C4_count_includes_subdirectory:
  "handle_list \<lparr>opendir_fails = False, open_fails = False, lock_fails = False, malloc_fails = False, write_room = None\<rparr>
      ''storage'' [(''a'', Reg ''abc''), (''sub'', Dir)] \<lparr>pending = [], at_end = PeerClosed, sent = [], send_fates = [], alive = True\<rparr>
    = (0, [(''a'', Reg ''abc''), (''sub'', Dir)],
       \<lparr>pending = [], at_end = PeerClosed, sent = [line_of ''OK 2'', line_of ''FILE a 3'', line_of ''END''], send_fates = [], alive = True\<rparr>)
   \<and> handle_list_win \<lparr>opendir_fails = False, open_fails = False, lock_fails = False, malloc_fails = False, write_room = None\<rparr>
      ''storage'' [(''a'', Reg ''abc''), (''sub'', Dir)] \<lparr>pending = [], at_end = PeerClosed, sent = [], send_fates = [], alive = True\<rparr>
    = (0, [(''a'', Reg ''abc''), (''sub'', Dir)],
       \<lparr>pending = [], at_end = PeerClosed, sent = [line_of ''OK 1'', line_of ''FILE a 3'', line_of ''END''], send_fates = [], alive = True\<rparr>)"
proof
  have d: "dec (Suc 0) = ''1''" "dec (Suc (Suc 0)) = ''2''" "dec (Suc (Suc (Suc 0))) = ''3''"
    by (simp_all add: dec.simps digit_char_def)
  have pa: "path_join MAX_PATH ''storage'' ''a'' = Some ''storage/a''"
    and ps: "path_join MAX_PATH ''storage'' ''sub'' = Some ''storage/sub''"
    by (simp_all add: path_join_def strchr_def MAX_PATH_def)
  have sa: "sys_stat ''storage'' [(''a'', Reg ''abc''), (''sub'', Dir)] ''storage/a'' = Some (Reg ''abc'')"
    and ss: "sys_stat ''storage'' [(''a'', Reg ''abc''), (''sub'', Dir)] ''storage/sub'' = Some Dir"
    by (simp_all add: sys_stat_def entry_name_def fs_lookup_def)
  show "handle_list \<lparr>opendir_fails = False, open_fails = False, lock_fails = False, malloc_fails = False, write_room = None\<rparr>
      ''storage'' [(''a'', Reg ''abc''), (''sub'', Dir)] \<lparr>pending = [], at_end = PeerClosed, sent = [], send_fates = [], alive = True\<rparr>
    = (0, [(''a'', Reg ''abc''), (''sub'', Dir)],
       \<lparr>pending = [], at_end = PeerClosed, sent = [line_of ''OK 2'', line_of ''FILE a 3'', line_of ''END''], send_fates = [], alive = True\<rparr>)"
    by (simp add: handle_list_def list_count_def readdir_def pa ps sa ss d send_line_def send_all_def MAX_LINE_def line_of_def)
  show "handle_list_win \<lparr>opendir_fails = False, open_fails = False, lock_fails = False, malloc_fails = False, write_room = None\<rparr>
      ''storage'' [(''a'', Reg ''abc''), (''sub'', Dir)] \<lparr>pending = [], at_end = PeerClosed, sent = [], send_fates = [], alive = True\<rparr>
    = (0, [(''a'', Reg ''abc''), (''sub'', Dir)],
       \<lparr>pending = [], at_end = PeerClosed, sent = [line_of ''OK 1'', line_of ''FILE a 3'', line_of ''END''], send_fates = [], alive = True\<rparr>)"
    by (simp add: handle_list_win_def find_files_win_def listed_win_def file_line_win_def d
          send_line_def send_all_def MAX_LINE_def line_of_def)
qed

text \<open>
  In server_windows.c the count is the number of \<^verbatim>\<open>FILE\<close> lines for every directory
  (with a peer that reads every line): both passes use the same test.
\<close>

lemma foldl_send_line_delivered:
  assumes "alive c" and "send_fates c = []"
  shows "foldl (\<lambda>k e. send_line k (f e)) c es
           = c\<lparr>sent := sent c @ map (\<lambda>e. take (MAX_LINE - 1) (f e)) es\<rparr>"
  using assms
proof (induction es arbitrary: c)
  case Nil
  then show ?case by simp
next
  case (Cons e es)
  have step: "send_line c (f e) = c\<lparr>sent := sent c @ [take (MAX_LINE - 1) (f e)]\<rparr>"
    using Cons.prems by (rule send_line_delivered)
  have "foldl (\<lambda>k e. send_line k (f e)) (send_line c (f e)) es
          = (send_line c (f e))\<lparr>sent := sent (send_line c (f e)) @ map (\<lambda>e. take (MAX_LINE - 1) (f e)) es\<rparr>"
    by (rule Cons.IH) (simp_all add: step Cons.prems)
  then show ?case by (simp add: step)
qed

lemma handle_list_win_consistent:
  assumes "\<not> opendir_fails env" and "alive c" and "send_fates c = []"
  shows "sent (snd (snd (handle_list_win env dir st c)))
           = sent c
             @ take (MAX_LINE - 1) (line_of (''OK '' @ dec (length (filter listed_win (find_files_win st)))))
             # map (\<lambda>e. take (MAX_LINE - 1) (file_line_win e)) (filter listed_win (find_files_win st))
             @ [take (MAX_LINE - 1) (line_of ''END'')]"
proof -
  define c1 where "c1 = send_line c (line_of (''OK '' @ dec (length (filter listed_win (find_files_win st)))))"
  have c1: "c1 = c\<lparr>sent := sent c @ [take (MAX_LINE - 1) (line_of (''OK '' @ dec (length (filter listed_win (find_files_win st)))))]\<rparr>"
    unfolding c1_def using assms(2,3) by (rule send_line_delivered)
  then have live: "alive c1" "send_fates c1 = []" using assms(2,3) by simp_all
  define c2 where "c2 = foldl (\<lambda>k e. send_line k (file_line_win e)) c1 (filter listed_win (find_files_win st))"
  have c2: "c2 = c1\<lparr>sent := sent c1 @ map (\<lambda>e. take (MAX_LINE - 1) (file_line_win e)) (filter listed_win (find_files_win st))\<rparr>"
    unfolding c2_def using live by (rule foldl_send_line_delivered)
  then have "alive c2" "send_fates c2 = []" using live by simp_all
  then have c3: "send_line c2 (line_of ''END'') = c2\<lparr>sent := sent c2 @ [take (MAX_LINE - 1) (line_of ''END'')]\<rparr>"
    by (rule send_line_delivered)
  have "handle_list_win env dir st c = (0, st, send_line c2 (line_of ''END''))"
    unfolding handle_list_win_def Let_def c2_def c1_def using assms(1) by simp
  then have "sent (snd (snd (handle_list_win env dir st c))) = sent c2 @ [take (MAX_LINE - 1) (line_of ''END'')]"
    by (simp add: c3)
  also have "sent c2 = sent c1 @ map (\<lambda>e. take (MAX_LINE - 1) (file_line_win e)) (filter listed_win (find_files_win st))"
    by (simp add: c2)
  also have "sent c1 = sent c @ [take (MAX_LINE - 1) (line_of (''OK '' @ dec (length (filter listed_win (find_files_win st)))))]"
    by (simp add: c1)
  finally show ?thesis by simp
qed

subsection \<open>C6: truncate on open\<close>

text \<open>
  Claim C6 says that after a failed upload to an existing name the file never holds its
  previous content. It does when the upload fails before the destination is opened:
  \<^verbatim>\<open>UPLOAD f -1\<close> is answered with \<^verbatim>\<open>ERR invalid size\<close>, and an open that the system
  refuses with \<^verbatim>\<open>ERR cannot open file for write\<close>; in both cases \<^verbatim>\<open>f\<close> is as before.
\<close>

theorem C6_upload_rejected_before_open_counterexample:
  "handle_upload \<lparr>opendir_fails = False, open_fails = False, lock_fails = False, malloc_fails = False, write_room = None\<rparr>
      ''storage'' [(''f'', Reg ''previous content'')] \<lparr>pending = ''ab'', at_end = PeerClosed, sent = [], send_fates = [], alive = True\<rparr> ''f'' (-1)
    = (-1, [(''f'', Reg ''previous content'')],
       \<lparr>pending = ''ab'', at_end = PeerClosed, sent = [line_of ''ERR invalid size''], send_fates = [], alive = True\<rparr>)
   \<and> handle_upload \<lparr>opendir_fails = False, open_fails = True, lock_fails = False, malloc_fails = False, write_room = None\<rparr>
      ''storage'' [(''f'', Reg ''previous content'')] \<lparr>pending = ''ab'', at_end = PeerClosed, sent = [], send_fates = [], alive = True\<rparr> ''f'' 2
    = (-1, [(''f'', Reg ''previous content'')],
       \<lparr>pending = ''ab'', at_end = PeerClosed, sent = [line_of ''ERR cannot open file for write''], send_fates = [], alive = True\<rparr>)"
proof
  show "handle_upload \<lparr>opendir_fails = False, open_fails = False, lock_fails = False, malloc_fails = False, write_room = None\<rparr>
      ''storage'' [(''f'', Reg ''previous content'')] \<lparr>pending = ''ab'', at_end = PeerClosed, sent = [], send_fates = [], alive = True\<rparr> ''f'' (-1)
    = (-1, [(''f'', Reg ''previous content'')],
       \<lparr>pending = ''ab'', at_end = PeerClosed, sent = [line_of ''ERR invalid size''], send_fates = [], alive = True\<rparr>)"
    by (simp add: handle_upload_def)
  have pj: "path_join MAX_PATH ''storage'' ''f'' = Some ''storage/f''"
    by (simp add: path_join_def strchr_def MAX_PATH_def)
  show "handle_upload \<lparr>opendir_fails = False, open_fails = True, lock_fails = False, malloc_fails = False, write_room = None\<rparr>
      ''storage'' [(''f'', Reg ''previous content'')] \<lparr>pending = ''ab'', at_end = PeerClosed, sent = [], send_fates = [], alive = True\<rparr> ''f'' 2
    = (-1, [(''f'', Reg ''previous content'')],
       \<lparr>pending = ''ab'', at_end = PeerClosed, sent = [line_of ''ERR cannot open file for write''], send_fates = [], alive = True\<rparr>)"
    by (simp add: handle_upload_def pj sys_open_trunc_def)
qed

lemma upload_after_open:
  assumes "0 \<le> sz" and "path_join MAX_PATH dir name = Some path"
    and "fs_lookup st name = Some (Reg old)"
    and "sys_open_trunc env dir st path = Some (fd, st1)"
    and "handle_upload env dir st c name sz = (r, st', c')"
  shows "(r = 0 \<longrightarrow> fs_lookup st' name = Some (Reg (take (nat sz) (pending c)))
                  \<and> length (take (nat sz) (pending c)) = nat sz)
       \<and> (r \<noteq> 0 \<longrightarrow> (\<exists>k. k \<le> nat sz \<and> (0 < sz \<longrightarrow> k < nat sz)
                  \<and> fs_lookup st' name = Some (Reg (take k (pending c)))))"
proof -
  have path: "path = dir @ ''/'' @ name" and noslash: "CHR ''/'' \<notin> set name"
    using path_join_SomeD [OF assms(2)] by simp_all
  have en: "entry_name dir path = Some name"
    unfolding path by (rule entry_name_join [OF noslash])
  have proper: "name \<noteq> []" "name \<noteq> ''.''" "name \<noteq> ''..''"
    using assms(3) by (auto simp: fs_lookup_def split: if_splits)
  have opened: "sys_open_trunc env dir st path = Some (name, fs_put st name (Reg []))"
    using assms(4) by (auto simp: sys_open_trunc_def en assms(3) split: if_splits)
  have look: "\<And>bytes. fs_lookup (fs_put (fs_put st name (Reg [])) name (Reg bytes)) name = Some (Reg bytes)"
    by (simp add: fs_put_put fs_lookup_put proper)
  have look0: "fs_lookup (fs_put st name (Reg [])) name = Some (Reg (take 0 (pending c)))"
    by (simp add: fs_lookup_put proper)
  define c1 where "c1 = send_line c (line_of ''OK'')"
  have body: "handle_upload env dir st c name sz =
      (if lock_fails env then (-1, fs_put st name (Reg []), send_line c (line_of ''ERR cannot lock file''))
       else if \<not> alive c1 then (-1, fs_put st name (Reg []), c1)
       else if malloc_fails env then (-1, fs_put st name (Reg []), send_line c1 (line_of ''ERR server oom''))
       else (case upload_loop (write_room env) [] c1 sz of
               (Saved, written, c2) \<Rightarrow>
                 (0, fs_put (fs_put st name (Reg [])) name (Reg written), send_line c2 (line_of ''OK SAVED''))
             | (RecvFailed, written, c2) \<Rightarrow>
                 (-1, fs_put (fs_put st name (Reg [])) name (Reg written), send_line c2 (line_of ''ERR recv data failed''))
             | (WriteFailed, written, c2) \<Rightarrow>
                 (-1, fs_put (fs_put st name (Reg [])) name (Reg written), send_line c2 (line_of ''ERR write failed''))))"
    using assms(1) by (simp add: handle_upload_def assms(2) opened c1_def)
  show ?thesis
  proof (cases "lock_fails env \<or> \<not> alive c1 \<or> malloc_fails env")
    case True
    then have "r = -1" and "st' = fs_put st name (Reg [])"
      using assms(5) unfolding body by (auto split: if_splits)
    moreover have "0 \<le> nat sz \<and> (0 < sz \<longrightarrow> 0 < nat sz)
              \<and> fs_lookup (fs_put st name (Reg [])) name = Some (Reg (take 0 (pending c)))"
      using look0 by simp
    then have "\<exists>k. k \<le> nat sz \<and> (0 < sz \<longrightarrow> k < nat sz)
              \<and> fs_lookup (fs_put st name (Reg [])) name = Some (Reg (take k (pending c)))" ..
    ultimately show ?thesis by simp
  next
    case False
    obtain e w c2 where loop: "upload_loop (write_room env) [] c1 sz = (e, w, c2)"
      by (cases "upload_loop (write_room env) [] c1 sz") auto
    note res = upload_loop_result [OF loop]
    have pend: "pending c1 = pending c" unfolding c1_def by (rule pending_send_line)
    have "(r, st', c') = (case (e, w, c2) of
               (Saved, written, c2) \<Rightarrow>
                 (0, fs_put (fs_put st name (Reg [])) name (Reg written), send_line c2 (line_of ''OK SAVED''))
             | (RecvFailed, written, c2) \<Rightarrow>
                 (-1, fs_put (fs_put st name (Reg [])) name (Reg written), send_line c2 (line_of ''ERR recv data failed''))
             | (WriteFailed, written, c2) \<Rightarrow>
                 (-1, fs_put (fs_put st name (Reg [])) name (Reg written), send_line c2 (line_of ''ERR write failed'')))"
      using assms(5) False unfolding body loop by simp
    then have st': "st' = fs_put (fs_put st name (Reg [])) name (Reg w)"
      and r: "r = (if e = Saved then 0 else -1)"
      by (cases e; simp)+
    show ?thesis
    proof (cases "e = Saved")
      case True
      then have "nat sz \<le> length (pending c)" and "w = take (nat sz) (pending c)"
        using res pend by auto
      then show ?thesis using True r st' look by simp
    next
      case False
      then obtain k where k: "k < nat sz" "w = take k (pending c)"
        using res pend by auto
      have "k \<le> nat sz \<and> (0 < sz \<longrightarrow> k < nat sz)
              \<and> fs_lookup st' name = Some (Reg (take k (pending c)))"
        using k st' look by simp
      then have "\<exists>k. k \<le> nat sz \<and> (0 < sz \<longrightarrow> k < nat sz)
              \<and> fs_lookup st' name = Some (Reg (take k (pending c)))" ..
      then show ?thesis using False r by simp
    qed
  qed
qed

text \<open>
  Claim C6 as amended. UPLOAD to an existing regular file whose previous content is
  \<open>old\<close>; the payload is what the peer sends next (\<open>pending c\<close>). When the upload gets
  as far as opening the destination (the size is not negative, the name passes
  \<^verbatim>\<open>path_join\<close>) and the open succeeds, the previous content is gone: after a
  successful upload (return value 0) the file holds exactly the first \<open>sz\<close> bytes of
  the payload, and there are \<open>sz\<close> of them; after a failed one it holds a prefix of the
  payload of fewer than \<open>sz\<close> bytes (the empty prefix when \<open>sz = 0\<close>). When the upload
  fails before that (negative size, name refused, open refused) it returns -1 and the
  storage, this file included, is as it was.
\<close>

theorem C6_upload_replaces_content:
  assumes "fs_lookup st name = Some (Reg old)"
    and "handle_upload env dir st c name sz = (r, st', c')"
  shows "(0 \<le> sz \<and> path_join MAX_PATH dir name = Some path
            \<and> sys_open_trunc env dir st path = Some (fd, st1) \<longrightarrow>
            (r = 0 \<longrightarrow> fs_lookup st' name = Some (Reg (take (nat sz) (pending c)))
                      \<and> length (take (nat sz) (pending c)) = nat sz)
          \<and> (r \<noteq> 0 \<longrightarrow> (\<exists>k. k \<le> nat sz \<and> (0 < sz \<longrightarrow> k < nat sz)
                      \<and> fs_lookup st' name = Some (Reg (take k (pending c))))))
       \<and> (sz < 0 \<or> path_join MAX_PATH dir name = None
            \<or> (path_join MAX_PATH dir name = Some path \<and> sys_open_trunc env dir st path = None) \<longrightarrow>
            r = -1 \<and> st' = st \<and> fs_lookup st' name = Some (Reg old))"
proof (rule conjI)
  show "0 \<le> sz \<and> path_join MAX_PATH dir name = Some path
            \<and> sys_open_trunc env dir st path = Some (fd, st1) \<longrightarrow>
            (r = 0 \<longrightarrow> fs_lookup st' name = Some (Reg (take (nat sz) (pending c)))
                      \<and> length (take (nat sz) (pending c)) = nat sz)
          \<and> (r \<noteq> 0 \<longrightarrow> (\<exists>k. k \<le> nat sz \<and> (0 < sz \<longrightarrow> k < nat sz)
                      \<and> fs_lookup st' name = Some (Reg (take k (pending c)))))"
  proof
    assume h: "0 \<le> sz \<and> path_join MAX_PATH dir name = Some path
            \<and> sys_open_trunc env dir st path = Some (fd, st1)"
    then have a: "0 \<le> sz" and b: "path_join MAX_PATH dir name = Some path"
      and d: "sys_open_trunc env dir st path = Some (fd, st1)" by simp_all
    show "(r = 0 \<longrightarrow> fs_lookup st' name = Some (Reg (take (nat sz) (pending c)))
                      \<and> length (take (nat sz) (pending c)) = nat sz)
          \<and> (r \<noteq> 0 \<longrightarrow> (\<exists>k. k \<le> nat sz \<and> (0 < sz \<longrightarrow> k < nat sz)
                      \<and> fs_lookup st' name = Some (Reg (take k (pending c)))))"
      by (rule upload_after_open [OF a b assms(1) d assms(2)])
  qed
  show "sz < 0 \<or> path_join MAX_PATH dir name = None
            \<or> (path_join MAX_PATH dir name = Some path \<and> sys_open_trunc env dir st path = None) \<longrightarrow>
            r = -1 \<and> st' = st \<and> fs_lookup st' name = Some (Reg old)"
  proof
    assume early: "sz < 0 \<or> path_join MAX_PATH dir name = None
            \<or> (path_join MAX_PATH dir name = Some path \<and> sys_open_trunc env dir st path = None)"
    have "r = -1 \<and> st' = st"
    proof (cases "sz < 0")
      case True
      then show ?thesis using assms(2) by (simp add: handle_upload_def)
    next
      case False
      then show ?thesis using assms(2) early by (auto simp: handle_upload_def)
    qed
    then show "r = -1 \<and> st' = st \<and> fs_lookup st' name = Some (Reg old)"
      using assms(1) by simp
  qed
qed

theorem C6_upload_replaces_content_witness:
  "(0::int) \<le> 3
   \<and> path_join MAX_PATH ''storage'' ''f'' = Some ''storage/f''
   \<and> fs_lookup [(''f'', Reg ''previous content'')] ''f'' = Some (Reg ''previous content'')
   \<and> sys_open_trunc \<lparr>opendir_fails = False, open_fails = False, lock_fails = False, malloc_fails = False, write_room = None\<rparr>
        ''storage'' [(''f'', Reg ''previous content'')] ''storage/f'' = Some (''f'', [(''f'', Reg [])])
   \<and> handle_upload \<lparr>opendir_fails = False, open_fails = False, lock_fails = False, malloc_fails = False, write_room = None\<rparr>
        ''storage'' [(''f'', Reg ''previous content'')] \<lparr>pending = ''abcd'', at_end = PeerClosed, sent = [], send_fates = [], alive = True\<rparr> ''f'' 3
      = (0, [(''f'', Reg ''abc'')], \<lparr>pending = ''d'', at_end = PeerClosed, sent = [line_of ''OK'', line_of ''OK SAVED''], send_fates = [], alive = True\<rparr>)
   \<and> fs_lookup [(''f'', Reg ''abc'')] ''f'' = Some (Reg (take (nat 3) ''abcd''))
   \<and> handle_upload \<lparr>opendir_fails = False, open_fails = False, lock_fails = False, malloc_fails = False, write_room = None\<rparr>
        ''storage'' [(''f'', Reg ''previous content'')] \<lparr>pending = ''ab'', at_end = PeerClosed, sent = [], send_fates = [], alive = True\<rparr> ''f'' 3
      = (-1, [(''f'', Reg ''ab'')], \<lparr>pending = [], at_end = PeerClosed, sent = [line_of ''OK'', line_of ''ERR recv data failed''], send_fates = [], alive = True\<rparr>)
   \<and> fs_lookup [(''f'', Reg ''ab'')] ''f'' = Some (Reg (take 2 ''ab''))"
proof -
  have sz: "(0::int) \<le> 3" by simp
  have pj: "path_join MAX_PATH ''storage'' ''f'' = Some ''storage/f''"
    by (simp add: path_join_def strchr_def MAX_PATH_def)
  have lk: "fs_lookup [(''f'', Reg ''previous content'')] ''f'' = Some (Reg ''previous content'')"
    by (simp add: fs_lookup_def)
  have op: "sys_open_trunc \<lparr>opendir_fails = False, open_fails = False, lock_fails = False, malloc_fails = False, write_room = None\<rparr>
        ''storage'' [(''f'', Reg ''previous content'')] ''storage/f'' = Some (''f'', [(''f'', Reg [])])"
    by (simp add: sys_open_trunc_def entry_name_def fs_lookup_def)
  have loop1: "upload_loop None [] \<lparr>pending = ''abcd'', at_end = PeerClosed, sent = [line_of ''OK''], send_fates = [], alive = True\<rparr> 3
      = (Saved, ''abc'', \<lparr>pending = ''d'', at_end = PeerClosed, sent = [line_of ''OK''], send_fates = [], alive = True\<rparr>)"
    by (simp add: upload_loop.simps BUF_def recv_all_def sys_write_def)
  have loop2: "upload_loop None [] \<lparr>pending = ''ab'', at_end = PeerClosed, sent = [line_of ''OK''], send_fates = [], alive = True\<rparr> 3
      = (RecvFailed, ''ab'', \<lparr>pending = [], at_end = PeerClosed, sent = [line_of ''OK''], send_fates = [], alive = True\<rparr>)"
    by (simp add: upload_loop.simps BUF_def recv_all_def sys_write_def)
  have run1: "handle_upload \<lparr>opendir_fails = False, open_fails = False, lock_fails = False, malloc_fails = False, write_room = None\<rparr>
        ''storage'' [(''f'', Reg ''previous content'')] \<lparr>pending = ''abcd'', at_end = PeerClosed, sent = [], send_fates = [], alive = True\<rparr> ''f'' 3
      = (0, [(''f'', Reg ''abc'')], \<lparr>pending = ''d'', at_end = PeerClosed, sent = [line_of ''OK'', line_of ''OK SAVED''], send_fates = [], alive = True\<rparr>)"
    by (simp add: handle_upload_def pj op loop1)
  have run2: "handle_upload \<lparr>opendir_fails = False, open_fails = False, lock_fails = False, malloc_fails = False, write_room = None\<rparr>
        ''storage'' [(''f'', Reg ''previous content'')] \<lparr>pending = ''ab'', at_end = PeerClosed, sent = [], send_fates = [], alive = True\<rparr> ''f'' 3
      = (-1, [(''f'', Reg ''ab'')], \<lparr>pending = [], at_end = PeerClosed, sent = [line_of ''OK'', line_of ''ERR recv data failed''], send_fates = [], alive = True\<rparr>)"
    by (simp add: handle_upload_def pj op loop2)
  have hyp: "(0::int) \<le> 3 \<and> path_join MAX_PATH ''storage'' ''f'' = Some ''storage/f''
      \<and> sys_open_trunc \<lparr>opendir_fails = False, open_fails = False, lock_fails = False, malloc_fails = False, write_room = None\<rparr>
        ''storage'' [(''f'', Reg ''previous content'')] ''storage/f'' = Some (''f'', [(''f'', Reg [])])"
    using sz pj op by simp
  show ?thesis
    using C6_upload_replaces_content [OF lk run1, THEN conjunct1, rule_format, OF hyp]
      C6_upload_replaces_content [OF lk run2, THEN conjunct1, rule_format, OF hyp]
      sz pj lk op run1 run2
    by (simp add: fs_lookup_def)
qed

subsection \<open>C3: back to READY after a command\<close>








subsection \<open>C10: control lines of more than 4095 bytes\<close>

lemma recv_line_loop_negative:
  "recv_line_loop cap e out ps = (n, buf, rest) \<Longrightarrow> n < 0 \<Longrightarrow>
   e = RecvError \<and> LF \<notin> set ps \<and> length out + length ps + 1 < cap"
proof (induction cap e out ps arbitrary: n buf rest rule: recv_line_loop.induct)
  case (1 cap e out ps)
  show ?case
  proof (cases "length out + 1 < cap")
    case False
    then show ?thesis using "1.prems" by (auto simp: recv_line_loop.simps)
  next
    case True
    show ?thesis
    proof (cases ps)
      case Nil
      then show ?thesis using "1.prems" True
        by (auto simp: recv_line_loop.simps split: stream_end.splits if_splits)
    next
      case (Cons ch tl)
      show ?thesis
      proof (cases "ch = LF")
        case True
        then show ?thesis using "1.prems" \<open>length out + 1 < cap\<close> Cons
          by (auto simp: recv_line_loop.simps)
      next
        case False
        then have "recv_line_loop cap e (out @ [ch]) tl = (n, buf, rest)"
          using "1.prems" True Cons by (simp add: recv_line_loop.simps)
        from "1.IH" [OF True Cons False this "1.prems"(2)] show ?thesis using Cons False by auto
      qed
    qed
  qed
qed

lemma recv_line_loop_content:
  "recv_line_loop cap e out ps = (n, buf, rest) \<Longrightarrow> 0 \<le> n \<Longrightarrow> buf @ rest = out @ ps"
proof (induction cap e out ps arbitrary: n buf rest rule: recv_line_loop.induct)
  case (1 cap e out ps)
  show ?case
  proof (cases "length out + 1 < cap")
    case False
    then show ?thesis using "1.prems" by (auto simp: recv_line_loop.simps)
  next
    case True
    show ?thesis
    proof (cases ps)
      case Nil
      then show ?thesis using "1.prems" True
        by (auto simp: recv_line_loop.simps split: stream_end.splits if_splits)
    next
      case (Cons ch tl)
      show ?thesis
      proof (cases "ch = LF")
        case True
        then show ?thesis using "1.prems" \<open>length out + 1 < cap\<close> Cons
          by (auto simp: recv_line_loop.simps)
      next
        case False
        then have "recv_line_loop cap e (out @ [ch]) tl = (n, buf, rest)"
          using "1.prems" True Cons by (simp add: recv_line_loop.simps)
        from "1.IH" [OF True Cons False this "1.prems"(2)] show ?thesis using Cons by simp
      qed
    qed
  qed
qed

lemma recv_line_content:
  assumes "recv_line cap c = (n, l, c2)" and "0 \<le> n"
  shows "l @ pending c2 = pending c"
proof -
  obtain rest where loop: "recv_line_loop cap (at_end c) [] (pending c) = (n, l, rest)"
    and c2: "c2 = c\<lparr>pending := rest\<rparr>"
    using assms(1) by (auto simp: recv_line_def split: prod.splits)
  from recv_line_loop_content [OF loop assms(2)] c2 show ?thesis by simp
qed

lemma recv_line_long:
  assumes "MAX_LINE - 1 \<le> length (pending c)" and "LF \<notin> set (take (MAX_LINE - 1) (pending c))"
  shows "recv_line MAX_LINE c =
           (int (MAX_LINE - 1), take (MAX_LINE - 1) (pending c),
            c\<lparr>pending := drop (MAX_LINE - 1) (pending c)\<rparr>)"
proof -
  have "length ([] :: string) + (MAX_LINE - 1) + 1 = MAX_LINE" by (simp add: MAX_LINE_def)
  from recv_line_loop_full [OF assms(1) assms(2) this]
  show ?thesis by (simp add: recv_line_def)
qed

lemma dispatch_keeps_pending:
  assumes "take 4 line = ''LIST'' \<or> fst (sscanf line fmt_UPLOAD) \<noteq> 2"
  shows "pending (snd (snd (dispatch env dir st c line))) = pending c"
proof (cases "take 4 line = ''LIST''")
  case True
  then show ?thesis by (simp add: dispatch_list_prefix back_to_ready_def handle_list_pending)
next
  case False
  then have "fst (sscanf line fmt_UPLOAD) \<noteq> 2" using assms by simp
  then show ?thesis
    by (simp add: dispatch_def back_to_ready_def handle_list_pending handle_download_pending
          handle_rename_pending handle_delete_pending pending_send_line)
qed

lemma chomp_plain: "\<forall>x\<in>set s. x \<noteq> NUL \<and> x \<noteq> LF \<and> x \<noteq> CR \<Longrightarrow> chomp s = s"
proof (induction s)
  case Nil
  then show ?case by (simp add: chomp_def cstr_def)
next
  case (Cons x xs)
  then show ?case by (simp add: chomp_Cons)
qed

lemma dispatch_unknown:
  assumes "x \<notin> set ''LUDRQ''"
  shows "dispatch env dir st c (x # xs) = (READY, st, send_line c (line_of ''ERR unknown command''))"
  using assms
  by (simp add: dispatch_def sscanf_def fmt_LIST_def fmt_UPLOAD_def fmt_DOWNLOAD_def
        fmt_RENAME_def fmt_DELETE_def strncmp_eq_def)

text \<open>
  Claim C10 says that the bytes of a long line that follow the first 4095 are read later
  as the start of the next command line. They are not when that prefix starts with
  \<^verbatim>\<open>QUIT\<close>: the peer sends \<^verbatim>\<open>QUIT\<close>, 4091 times \<^verbatim>\<open>A\<close>, then \<^verbatim>\<open>BC\<close> and a newline;
  the server answers \<^verbatim>\<open>OK BYE\<close> and the loop ends with \<^verbatim>\<open>BC\<close> and the newline never
  read.
\<close>

theorem C10_rest_after_quit_counterexample:
  "client_loop \<lparr>opendir_fails = False, open_fails = False, lock_fails = False, malloc_fails = False, write_room = None\<rparr> ''storage'' []
      \<lparr>pending = ''QUIT'' @ replicate 4091 (CHR ''A'') @ line_of ''BC'', at_end = PeerClosed, sent = [], send_fates = [], alive = True\<rparr>
    = ([], \<lparr>pending = line_of ''BC'', at_end = PeerClosed, sent = [line_of ''OK BYE''], send_fates = [], alive = True\<rparr>)"
proof -
  define pre where "pre = ''QUIT'' @ replicate 4091 (CHR ''A'')"
  define c where "c = \<lparr>pending = ''QUIT'' @ replicate 4091 (CHR ''A'') @ line_of ''BC'', at_end = PeerClosed, sent = [], send_fates = [], alive = True\<rparr>"
  have tk: "take (MAX_LINE - 1) (pending c) = pre"
    and dr: "drop (MAX_LINE - 1) (pending c) = line_of ''BC''"
    by (simp_all add: c_def pre_def MAX_LINE_def)
  have len: "MAX_LINE - 1 \<le> length (pending c)" by (simp add: c_def MAX_LINE_def)
  have nolf: "LF \<notin> set (take (MAX_LINE - 1) (pending c))" unfolding tk by (simp add: pre_def LF_def)
  have rl: "recv_line MAX_LINE c = (int (MAX_LINE - 1), pre, c\<lparr>pending := line_of ''BC''\<rparr>)"
    by (rule recv_line_long [OF len nolf, unfolded tk dr])
  have verb: "take 4 (chomp pre) = ''QUIT''"
    by (rule chomp_keeps_verb) (simp_all add: pre_def NUL_def LF_def CR_def)
  then have ne: "chomp pre \<noteq> []" by auto
  have pos: "\<not> int (MAX_LINE - 1) \<le> 0" by (simp add: MAX_LINE_def)
  have step: "client_step \<lparr>opendir_fails = False, open_fails = False, lock_fails = False, malloc_fails = False, write_room = None\<rparr> ''storage'' [] c
      = (CLOSED, [], send_line (c\<lparr>pending := line_of ''BC''\<rparr>) (line_of ''OK BYE''))"
    unfolding client_step_def rl using ne pos by (simp add: dispatch_quit_prefix [OF verb])
  have "client_loop \<lparr>opendir_fails = False, open_fails = False, lock_fails = False, malloc_fails = False, write_room = None\<rparr> ''storage'' [] c = ([], send_line (c\<lparr>pending := line_of ''BC''\<rparr>) (line_of ''OK BYE''))"
    by (subst client_loop.simps) (simp add: step)
  then show ?thesis by (simp add: c_def)
qed

text \<open>
  Claim C10 as amended. The first \<open>MAX_LINE - 1 = 4095\<close> bytes to come hold no newline
  (the control line is longer than 4095 bytes); \<open>line\<close> is that prefix after
  \<^verbatim>\<open>chomp\<close>, \<open>rest\<close> everything after it, the newline of the line included, and
  \<open>(s1, st1, c1)\<close> the outcome of this pass through the loop. Then \<^verbatim>\<open>recv_line\<close>
  returns 4095 with exactly the prefix and leaves \<open>rest\<close> unread, and the command is
  interpreted from the prefix. If the prefix starts with \<^verbatim>\<open>QUIT\<close>, the loop ends with
  \<open>rest\<close> never read. Otherwise the handler is in READY and, if no send has ended the
  process, the loop goes round; and if the command is not an UPLOAD (which would read
  its payload from \<open>rest\<close>), \<open>rest\<close> is what the connection still holds, so the line
  the next \<^verbatim>\<open>recv_line\<close> returns is the beginning of \<open>rest\<close>. No line is rejected for
  its length: \<^verbatim>\<open>recv_line\<close> returns a negative value only when the transport fails
  before 4095 bytes and before a newline have arrived.
\<close>

theorem C10_long_line_is_split:
  assumes "MAX_LINE - 1 \<le> length (pending c)"
    and "LF \<notin> set (take (MAX_LINE - 1) (pending c))"
    and "line = chomp (take (MAX_LINE - 1) (pending c))"
    and "rest = drop (MAX_LINE - 1) (pending c)"
    and "client_step env dir st c = (s1, st1, c1)"
  shows "recv_line MAX_LINE c = (int (MAX_LINE - 1), take (MAX_LINE - 1) (pending c), c\<lparr>pending := rest\<rparr>)
       \<and> (s1, st1, c1) = (if line = [] then (READY, st, c\<lparr>pending := rest\<rparr>)
                          else dispatch env dir st (c\<lparr>pending := rest\<rparr>) line)
       \<and> (take 4 line = ''QUIT'' \<longrightarrow>
            s1 = CLOSED \<and> pending c1 = rest \<and> client_loop env dir st c = (st1, c1))
       \<and> (take 4 line \<noteq> ''QUIT'' \<longrightarrow> s1 = READY)
       \<and> (take 4 line \<noteq> ''QUIT'' \<and> alive c1 \<longrightarrow>
            client_loop env dir st c = client_loop env dir st1 c1)
       \<and> (take 4 line \<noteq> ''QUIT'' \<and> (take 4 line = ''LIST'' \<or> fst (sscanf line fmt_UPLOAD) \<noteq> 2) \<longrightarrow>
            pending c1 = rest
          \<and> (recv_line MAX_LINE c1 = (n, l, c2) \<and> 0 \<le> n \<longrightarrow> l @ pending c2 = rest))
       \<and> (fst (recv_line MAX_LINE k) < 0 \<longrightarrow>
            at_end k = RecvError \<and> length (pending k) < MAX_LINE - 1)"
proof -
  have rl: "recv_line MAX_LINE c = (int (MAX_LINE - 1), take (MAX_LINE - 1) (pending c), c\<lparr>pending := rest\<rparr>)"
    unfolding assms(4) by (rule recv_line_long [OF assms(1,2)])
  have pos: "0 < int (MAX_LINE - 1)" by (simp add: MAX_LINE_def)
  have "client_step env dir st c = (if line = [] then (READY, st, c\<lparr>pending := rest\<rparr>)
                          else dispatch env dir st (c\<lparr>pending := rest\<rparr>) line)"
    unfolding client_step_def rl assms(3) using pos by simp
  then have step: "(s1, st1, c1) = (if line = [] then (READY, st, c\<lparr>pending := rest\<rparr>)
                          else dispatch env dir st (c\<lparr>pending := rest\<rparr>) line)"
    using assms(5) by simp
  have quit: "take 4 line = ''QUIT'' \<longrightarrow>
            s1 = CLOSED \<and> pending c1 = rest \<and> client_loop env dir st c = (st1, c1)"
  proof
    assume q: "take 4 line = ''QUIT''"
    then have "line \<noteq> []" by auto
    then have out: "(s1, st1, c1) = (CLOSED, st, send_line (c\<lparr>pending := rest\<rparr>) (line_of ''OK BYE''))"
      using step by (simp add: dispatch_quit_prefix [OF q])
    then have "s1 = CLOSED" and "pending c1 = rest" by (simp_all add: pending_send_line)
    moreover have "client_loop env dir st c = (st1, c1)"
      using out by (subst client_loop.simps) (simp add: assms(5))
    ultimately show "s1 = CLOSED \<and> pending c1 = rest \<and> client_loop env dir st c = (st1, c1)" by simp
  qed
  have ready: "take 4 line \<noteq> ''QUIT'' \<longrightarrow> s1 = READY"
  proof
    assume nq: "take 4 line \<noteq> ''QUIT''"
    show "s1 = READY"
    proof (cases "line = []")
      case True
      then show ?thesis using step by simp
    next
      case False
      then have "s1 = fst (dispatch env dir st (c\<lparr>pending := rest\<rparr>) line)"
        using step by (metis fst_conv)
      then have "s1 \<noteq> CLOSED" using nq dispatch_closed_iff by simp
      then show ?thesis by (cases s1) simp_all
    qed
  qed
  have loop: "take 4 line \<noteq> ''QUIT'' \<and> alive c1 \<longrightarrow>
            client_loop env dir st c = client_loop env dir st1 c1"
  proof
    assume "take 4 line \<noteq> ''QUIT'' \<and> alive c1"
    then have "s1 = READY" and "alive c1" using ready by simp_all
    then show "client_loop env dir st c = client_loop env dir st1 c1"
      by (subst client_loop.simps) (simp add: assms(5))
  qed
  have later: "take 4 line \<noteq> ''QUIT'' \<and> (take 4 line = ''LIST'' \<or> fst (sscanf line fmt_UPLOAD) \<noteq> 2) \<longrightarrow>
            pending c1 = rest
          \<and> (recv_line MAX_LINE c1 = (n, l, c2) \<and> 0 \<le> n \<longrightarrow> l @ pending c2 = rest)"
  proof
    assume h: "take 4 line \<noteq> ''QUIT'' \<and> (take 4 line = ''LIST'' \<or> fst (sscanf line fmt_UPLOAD) \<noteq> 2)"
    have p: "pending c1 = rest"
    proof (cases "line = []")
      case True
      then show ?thesis using step by simp
    next
      case False
      then have "c1 = snd (snd (dispatch env dir st (c\<lparr>pending := rest\<rparr>) line))"
        using step by (metis snd_conv)
      then show ?thesis using h dispatch_keeps_pending [of line env dir st "c\<lparr>pending := rest\<rparr>"] by simp
    qed
    moreover have "recv_line MAX_LINE c1 = (n, l, c2) \<and> 0 \<le> n \<longrightarrow> l @ pending c2 = rest"
      using recv_line_content [of MAX_LINE c1 n l c2] p by auto
    ultimately show "pending c1 = rest
          \<and> (recv_line MAX_LINE c1 = (n, l, c2) \<and> 0 \<le> n \<longrightarrow> l @ pending c2 = rest)" by simp
  qed
  have never: "fst (recv_line MAX_LINE k) < 0 \<longrightarrow>
            at_end k = RecvError \<and> length (pending k) < MAX_LINE - 1"
  proof
    assume neg: "fst (recv_line MAX_LINE k) < 0"
    obtain n' buf rest' where lp: "recv_line_loop MAX_LINE (at_end k) [] (pending k) = (n', buf, rest')"
      by (cases "recv_line_loop MAX_LINE (at_end k) [] (pending k)") auto
    then have "n' < 0" using neg by (simp add: recv_line_def)
    from recv_line_loop_negative [OF lp this]
    show "at_end k = RecvError \<and> length (pending k) < MAX_LINE - 1" by auto
  qed
  show ?thesis using rl step quit ready loop later never by blast
qed

theorem C10_long_line_is_split_witness:
  "MAX_LINE - 1 \<le> length (pending \<lparr>pending = replicate 4095 (CHR ''A'') @ line_of ''BC'', at_end = PeerClosed, sent = [], send_fates = [], alive = True\<rparr>)
   \<and> LF \<notin> set (take (MAX_LINE - 1) (pending \<lparr>pending = replicate 4095 (CHR ''A'') @ line_of ''BC'', at_end = PeerClosed, sent = [], send_fates = [], alive = True\<rparr>))
   \<and> recv_line MAX_LINE \<lparr>pending = replicate 4095 (CHR ''A'') @ line_of ''BC'', at_end = PeerClosed, sent = [], send_fates = [], alive = True\<rparr> = (4095, replicate 4095 (CHR ''A''), \<lparr>pending = line_of ''BC'', at_end = PeerClosed, sent = [], send_fates = [], alive = True\<rparr>)
   \<and> client_step \<lparr>opendir_fails = False, open_fails = False, lock_fails = False, malloc_fails = False, write_room = None\<rparr> ''storage'' [] \<lparr>pending = replicate 4095 (CHR ''A'') @ line_of ''BC'', at_end = PeerClosed, sent = [], send_fates = [], alive = True\<rparr> = (READY, [], \<lparr>pending = line_of ''BC'', at_end = PeerClosed, sent = [line_of ''ERR unknown command''], send_fates = [], alive = True\<rparr>)
   \<and> take 4 (replicate 4095 (CHR ''A'')) \<noteq> ''QUIT''
   \<and> alive \<lparr>pending = line_of ''BC'', at_end = PeerClosed, sent = [line_of ''ERR unknown command''], send_fates = [], alive = True\<rparr>
   \<and> recv_line MAX_LINE \<lparr>pending = line_of ''BC'', at_end = PeerClosed, sent = [line_of ''ERR unknown command''], send_fates = [], alive = True\<rparr> = (3, line_of ''BC'', \<lparr>pending = [], at_end = PeerClosed, sent = [line_of ''ERR unknown command''], send_fates = [], alive = True\<rparr>)
   \<and> client_loop \<lparr>opendir_fails = False, open_fails = False, lock_fails = False, malloc_fails = False, write_room = None\<rparr> ''storage'' [] \<lparr>pending = replicate 4095 (CHR ''A'') @ line_of ''BC'', at_end = PeerClosed, sent = [], send_fates = [], alive = True\<rparr> = ([], \<lparr>pending = [], at_end = PeerClosed, sent = [line_of ''ERR unknown command'', line_of ''ERR unknown command''], send_fates = [], alive = True\<rparr>)"
proof -
  define env where "env = \<lparr>opendir_fails = False, open_fails = False, lock_fails = False, malloc_fails = False, write_room = None\<rparr>"
  define pre where "pre = replicate 4095 (CHR ''A'')"
  define c where "c = \<lparr>pending = replicate 4095 (CHR ''A'') @ line_of ''BC'', at_end = PeerClosed, sent = [], send_fates = [], alive = True\<rparr>"
  define c1 where "c1 = \<lparr>pending = line_of ''BC'', at_end = PeerClosed, sent = [line_of ''ERR unknown command''], send_fates = [], alive = True\<rparr>"
  have tk: "take (MAX_LINE - 1) (pending c) = pre"
    and dr: "drop (MAX_LINE - 1) (pending c) = line_of ''BC''"
    by (simp_all add: c_def pre_def MAX_LINE_def)
  have len: "MAX_LINE - 1 \<le> length (pending c)" by (simp add: c_def MAX_LINE_def)
  have nolf: "LF \<notin> set (take (MAX_LINE - 1) (pending c))" unfolding tk by (simp add: pre_def LF_def)
  have cons: "pre = CHR ''A'' # replicate 4094 (CHR ''A'')"
    unfolding pre_def by (simp add: numeral_eq_Suc)
  have plain: "chomp pre = pre"
    by (rule chomp_plain) (simp add: pre_def NUL_def LF_def CR_def)
  have line: "pre = chomp (take (MAX_LINE - 1) (pending c))" by (simp only: tk plain)
  have rest: "line_of ''BC'' = drop (MAX_LINE - 1) (pending c)" by (simp only: dr)
  have rl: "recv_line MAX_LINE c = (int (MAX_LINE - 1), pre, c\<lparr>pending := line_of ''BC''\<rparr>)"
    by (rule recv_line_long [OF len nolf, unfolded tk dr])
  have pos: "\<not> int (MAX_LINE - 1) \<le> 0" by (simp add: MAX_LINE_def)
  have unknown: "dispatch env ''storage'' [] (c\<lparr>pending := line_of ''BC''\<rparr>) pre
      = (READY, [], send_line (c\<lparr>pending := line_of ''BC''\<rparr>) (line_of ''ERR unknown command''))"
    unfolding cons by (rule dispatch_unknown) simp
  have step: "client_step env ''storage'' [] c = (READY, [], c1)"
    unfolding client_step_def rl using pos
    by (simp add: plain unknown) (simp add: cons c_def c1_def)
  have nq: "take 4 pre \<noteq> ''QUIT''" by (simp add: cons)
  have live: "alive c1" by (simp add: c1_def)
  have rl1: "recv_line MAX_LINE c1 = (3, line_of ''BC'', \<lparr>pending = [], at_end = PeerClosed, sent = [line_of ''ERR unknown command''], send_fates = [], alive = True\<rparr>)"
    by (simp add: c1_def recv_line_def recv_line_loop.simps MAX_LINE_def line_of_def LF_def)
  have ch: "chomp (line_of ''BC'') = ''BC''"
    by (simp add: chomp_def cstr_def line_of_def NUL_def LF_def CR_def)
  have step1: "client_step env ''storage'' [] c1 = (READY, [], \<lparr>pending = [], at_end = PeerClosed, sent = [line_of ''ERR unknown command'', line_of ''ERR unknown command''], send_fates = [], alive = True\<rparr>)"
    by (simp add: client_step_def rl1 ch dispatch_unknown)
  have loop1: "client_loop env ''storage'' [] c1 = ([], \<lparr>pending = [], at_end = PeerClosed, sent = [line_of ''ERR unknown command'', line_of ''ERR unknown command''], send_fates = [], alive = True\<rparr>)"
    by (subst client_loop.simps) (simp add: step1 client_loop_at_end)
  have hyp: "take 4 pre \<noteq> ''QUIT'' \<and> alive c1" using nq live by simp
  have "client_loop env ''storage'' [] c = client_loop env ''storage'' [] c1"
    using C10_long_line_is_split [OF len nolf line rest step]
    by (simp add: hyp)
  then show ?thesis
    using len nolf rl step nq live rl1 loop1
    by (simp add: env_def pre_def c_def c1_def MAX_LINE_def)
qed

end
